theory Spec2Isabelle
  imports Main "HOL-Library.AList"
begin

section \<open>JavaScript values and strings\<close>

text \<open>
  The gateway is JavaScript. A string is modelled as a list of characters, one \<^typ>\<open>char\<close>
  per code unit, for the strings whose code units are below 256; \<open>length\<close> is the
  string's \<open>.length\<close>. The values a caller may pass where the code expects a string are
  the constructors of \<open>js_value\<close>; \<open>truthy\<close> is JavaScript's boolean coercion and
  \<open>typeof\<close> its operator of that name.
\<close>

datatype js_value =
    JUndefined
  | JNull
  | JBoolean bool
  | JNumber int
  | JString string
  | JObject

fun truthy :: "js_value \<Rightarrow> bool" where
  "truthy JUndefined = False"
| "truthy JNull = False"
| "truthy (JBoolean b) = b"
| "truthy (JNumber n) = (n \<noteq> 0)"
| "truthy (JString s) = (s \<noteq> [])"
| "truthy JObject = True"

fun typeof :: "js_value \<Rightarrow> string" where
  "typeof JUndefined = ''undefined''"
| "typeof JNull = ''object''"
| "typeof (JBoolean b) = ''boolean''"
| "typeof (JNumber n) = ''number''"
| "typeof (JString s) = ''string''"
| "typeof JObject = ''object''"

fun stringOf :: "js_value \<Rightarrow> string" where
  "stringOf (JString s) = s"
| "stringOf v = []"

definition isDigit :: "char \<Rightarrow> bool" where
  "isDigit c = (48 \<le> (of_char c :: nat) \<and> (of_char c :: nat) \<le> 57)"

definition isUpper :: "char \<Rightarrow> bool" where
  "isUpper c = (65 \<le> (of_char c :: nat) \<and> (of_char c :: nat) \<le> 90)"

definition isLower :: "char \<Rightarrow> bool" where
  "isLower c = (97 \<le> (of_char c :: nat) \<and> (of_char c :: nat) \<le> 122)"

text \<open>
  \<open>String.prototype.toLowerCase\<close>. The code lowers a name only to search it for ASCII
  words; among the code units below 256 only the ASCII capitals become ASCII letters, so
  for these searches it is enough to lower the ASCII capitals.
\<close>

definition toLowerChar :: "char \<Rightarrow> char" where
  "toLowerChar c = (if isUpper c then char_of ((of_char c :: nat) + 32) else c)"

definition toLowerCase :: "string \<Rightarrow> string" where
  "toLowerCase s = map toLowerChar s"

text \<open>\<open>s.startsWith(p)\<close> and \<open>s.includes(p)\<close>.\<close>

definition startsWith :: "string \<Rightarrow> string \<Rightarrow> bool" where
  "startsWith s p = (take (length p) s = p)"

fun strIncludes :: "string \<Rightarrow> string \<Rightarrow> bool" where
  "strIncludes [] p = (p = [])"
| "strIncludes (c # cs) p = (startsWith (c # cs) p \<or> strIncludes cs p)"

text \<open>
  \<open>s.trim()\<close> removes white space at both ends; below 256 the white space is tab, line
  feed, vertical tab, form feed, carriage return, space and no-break space.
\<close>

definition isWhitespace :: "char \<Rightarrow> bool" where
  "isWhitespace c = ((of_char c :: nat) \<in> {9, 10, 11, 12, 13, 32, 160})"

definition trim :: "string \<Rightarrow> string" where
  "trim s = rev (dropWhile isWhitespace (rev (dropWhile isWhitespace s)))"

text \<open>
  \<open>s.split('\n')\<close>: the pieces between line feeds; always at least one piece, the last
  one being what follows the last line feed.
\<close>

fun splitNewline :: "string \<Rightarrow> string list" where
  "splitNewline [] = [[]]"
| "splitNewline (c # cs) =
     (if c = CHR 0x0A then [] # splitNewline cs
      else (case splitNewline cs of
              [] \<Rightarrow> [[c]]
            | l # ls \<Rightarrow> (c # l) # ls))"

section \<open>Constants and model-name mapping (constants.js)\<close>

definition MIN_SIGNATURE_LENGTH :: nat where
  "MIN_SIGNATURE_LENGTH = 50"

definition GEMINI_MAX_OUTPUT_TOKENS :: int where
  "GEMINI_MAX_OUTPUT_TOKENS = 16384"

definition GEMINI_SIGNATURE_CACHE_TTL_MS :: int where
  "GEMINI_SIGNATURE_CACHE_TTL_MS = 2 * 60 * 60 * 1000"

definition MODEL_REDIRECTS :: "(string \<times> string) list" where
  "MODEL_REDIRECTS = [(''haiku'', ''gemini-2.5-flash-lite'')]"

text \<open>
  \<open>MODEL_DATE_SUFFIX_REGEX = /-\d{8}$/\<close>: \<open>test\<close> succeeds when the last nine code units are
  a hyphen and eight digits; \<open>replace(regex, '')\<close> then removes exactly those nine.
\<close>

definition matchesDateSuffix :: "string \<Rightarrow> bool" where
  "matchesDateSuffix s =
     (9 \<le> length s \<and>
      (let t = drop (length s - 9) s
       in take 1 t = ''-'' \<and> list_all isDigit (drop 1 t)))"

definition removeDateSuffix :: "string \<Rightarrow> string" where
  "removeDateSuffix s = (if matchesDateSuffix s then take (length s - 9) s else s)"

text \<open>The loop over \<open>Object.entries(MODEL_REDIRECTS)\<close>, returning at the first pattern found.\<close>

fun findRedirect :: "(string \<times> string) list \<Rightarrow> string \<Rightarrow> string option" where
  "findRedirect [] lower = None"
| "findRedirect ((pattern, replacement) # rest) lower =
     (if strIncludes lower pattern then Some replacement else findRedirect rest lower)"

definition mapModelName :: "string \<Rightarrow> string" where
  "mapModelName modelName =
     (if modelName = [] then modelName
      else
        let lower = toLowerCase modelName in
        (case findRedirect MODEL_REDIRECTS lower of
           Some replacement \<Rightarrow> replacement
         | None \<Rightarrow>
             if matchesDateSuffix modelName then removeDateSuffix modelName
             else modelName))"

definition getModelFamily :: "string \<Rightarrow> string" where
  "getModelFamily modelName =
     (let lower = toLowerCase modelName in
      if strIncludes lower ''claude'' then ''claude''
      else if strIncludes lower ''gemini'' then ''gemini''
      else ''unknown'')"

text \<open>
  The spec's wording of the normalisation: the date suffix is stripped, and a name that
  contains "haiku" is redirected.
\<close>

definition redirectHaiku :: "string \<Rightarrow> string" where
  "redirectHaiku n =
     (if strIncludes (toLowerCase n) ''haiku'' then ''gemini-2.5-flash-lite'' else n)"

section \<open>Tool-name sanitisation (utils/tool-converter.js)\<close>

text \<open>The character class \<open>[a-zA-Z0-9_-]\<close>.\<close>

definition isSafeChar :: "char \<Rightarrow> bool" where
  "isSafeChar c = (isLower c \<or> isUpper c \<or> isDigit c \<or> c = CHR ''_'' \<or> c = CHR ''-'')"

text \<open>\<open>name.replace(/[^a-zA-Z0-9_-]/g, '_')\<close>.\<close>

definition replaceUnsafe :: "string \<Rightarrow> string" where
  "replaceUnsafe s = map (\<lambda>c. if isSafeChar c then c else CHR ''_'') s"

text \<open>
  \<open>cleaned.replace(/^_+|_+$/g, '')\<close>, as the regular-expression engine scans it from left
  to right: at the start of the string a run of underscores matches \<open>^_+\<close> and is removed;
  at any position a run of underscores that reaches the end of the string matches \<open>_+$\<close>
  and is removed; every other code unit is copied. The flag tells whether the scan is still
  at index 0.
\<close>

function replaceEdgeUnderscores :: "bool \<Rightarrow> string \<Rightarrow> string" where
  "replaceEdgeUnderscores atStart [] = []"
| "replaceEdgeUnderscores atStart (c # cs) =
     (if atStart \<and> c = CHR ''_''
        then replaceEdgeUnderscores False (dropWhile (\<lambda>x. x = CHR ''_'') cs)
      else if list_all (\<lambda>x. x = CHR ''_'') (c # cs) then []
      else c # replaceEdgeUnderscores False cs)"
  by pat_completeness auto
termination
  by (relation "measure (\<lambda>(b, s). length s)")
     (auto simp: length_dropWhile_le less_Suc_eq_le)

definition sanitizeToolName :: "js_value \<Rightarrow> string" where
  "sanitizeToolName name =
     (if \<not> truthy name \<or> typeof name \<noteq> ''string'' then ''tool''
      else
        let cleaned = replaceUnsafe (stringOf name);
            cleaned = replaceEdgeUnderscores True cleaned;
            cleaned = (if cleaned = [] then ''tool'' else cleaned);
            cleaned = (if length cleaned > 128 then take 128 cleaned else cleaned)
        in cleaned)"

text \<open>
  The spec's wording of the same function, for strings: replace, trim underscores at both
  ends, default to "tool", cap at 128.
\<close>

definition trimUnderscores :: "string \<Rightarrow> string" where
  "trimUnderscores s =
     rev (dropWhile (\<lambda>x. x = CHR ''_'') (rev (dropWhile (\<lambda>x. x = CHR ''_'') s)))"

definition sanitize_tool_name_spec :: "string \<Rightarrow> string" where
  "sanitize_tool_name_spec n =
     take 128 ((\<lambda>t. if t = [] then ''tool'' else t) (trimUnderscores (replaceUnsafe n)))"

section \<open>Finish reasons (format/openai/response-converter.js)\<close>

text \<open>The argument is \<open>candidate.finishReason\<close>, which may be absent.\<close>

definition mapFinishReason :: "string option \<Rightarrow> string" where
  "mapFinishReason googleReason =
     (if googleReason = Some ''STOP'' then ''stop''
      else if googleReason = Some ''MAX_TOKENS'' then ''length''
      else if googleReason = Some ''TOOL_USE'' \<or> googleReason = Some ''FUNCTION_CALL''
        then ''tool_calls''
      else if googleReason = Some ''SAFETY'' then ''content_filter''
      else ''stop'')"

section \<open>Tool-name cache (utils/tool-name-cache.js)\<close>

text \<open>
  \<open>toolNameMap\<close> is a JavaScript \<open>Map\<close>: its keys are distinct and it iterates in insertion
  order, \<open>set\<close> on a present key replacing the value in place and on a new key appending.
  This is an association list under \<open>AList.update\<close>, \<open>AList.delete\<close> and \<open>map_of\<close>.
  \<open>Date.now()\<close> is the argument \<open>now\<close> (milliseconds).
\<close>

record tool_name_entry =
  originalName :: string
  ts :: int

type_synonym tool_name_map = "(string \<times> tool_name_entry) list"

definition MAX_ENTRIES :: nat where
  "MAX_ENTRIES = 512"

definition ENTRY_TTL_MS :: int where
  "ENTRY_TTL_MS = 30 * 60 * 1000"

definition makeKey :: "string \<Rightarrow> string \<Rightarrow> string \<Rightarrow> string" where
  "makeKey sessionId model safeName = sessionId @ ''::'' @ model @ ''::'' @ safeName"

text \<open>The loop of \<open>pruneSize\<close>: delete keys in iteration order until enough are removed.\<close>

fun pruneLoop :: "nat \<Rightarrow> nat \<Rightarrow> tool_name_map \<Rightarrow> tool_name_map" where
  "pruneLoop removeCount removed [] = []"
| "pruneLoop removeCount removed (e # rest) =
     (if Suc removed \<ge> removeCount then rest
      else pruneLoop removeCount (Suc removed) rest)"

definition pruneSize :: "nat \<Rightarrow> tool_name_map \<Rightarrow> tool_name_map" where
  "pruneSize targetSize m =
     (if length m \<le> targetSize then m
      else pruneLoop (length m - targetSize) 0 m)"

definition pruneExpired :: "int \<Rightarrow> tool_name_map \<Rightarrow> tool_name_map" where
  "pruneExpired now m = filter (\<lambda>(key, entry). \<not> (now - ts entry > ENTRY_TTL_MS)) m"

definition setToolNameMapping ::
  "int \<Rightarrow> string \<Rightarrow> string \<Rightarrow> string \<Rightarrow> string \<Rightarrow> tool_name_map \<Rightarrow> tool_name_map" where
  "setToolNameMapping now sessionId model safeName origName m =
     (if safeName = [] \<or> origName = [] \<or> safeName = origName then m
      else
        let key = makeKey sessionId model safeName;
            m = AList.update key \<lparr>originalName = origName, ts = now\<rparr> m
        in pruneSize MAX_ENTRIES m)"

text \<open>The lookup returns the name (or \<open>null\<close>) and the map, from which it deletes an expired entry.\<close>

definition getOriginalToolName ::
  "int \<Rightarrow> string \<Rightarrow> string \<Rightarrow> string \<Rightarrow> tool_name_map \<Rightarrow> string option \<times> tool_name_map" where
  "getOriginalToolName now sessionId model safeName m =
     (if safeName = [] then (None, m)
      else
        let key = makeKey sessionId model safeName in
        (case map_of m key of
           None \<Rightarrow> (None, m)
         | Some entry \<Rightarrow>
             if now - ts entry > ENTRY_TTL_MS then (None, AList.delete key m)
             else (if originalName entry = [] then None else Some (originalName entry), m)))"

text \<open>
  The representation invariant of the cache: distinct keys (it is a \<open>Map\<close>) and at most
  \<open>MAX_ENTRIES\<close> entries (every insertion prunes). Session ids are 32 hexadecimal digits
  or a UUID, and so contain no colon.
\<close>

definition toolNameMap_ok :: "tool_name_map \<Rightarrow> bool" where
  "toolNameMap_ok m = (distinct (map fst m) \<and> length m \<le> MAX_ENTRIES)"

definition noColon :: "string \<Rightarrow> bool" where
  "noColon s = (CHR '':'' \<notin> set s)"

text \<open>A full cache: 512 entries, of the sessions "a", "aa", "aaa" and so on.\<close>

definition fullToolNameMap :: tool_name_map where
  "fullToolNameMap =
     map (\<lambda>i. (makeKey (replicate (Suc i) (CHR ''a'')) ''m'' ''a_b'',
               \<lparr>originalName = ''a.b'', ts = 0\<rparr>)) [0..<512]"

section \<open>Signature cache (format/signature-cache.js)\<close>

record signature_entry =
  signature :: string
  timestamp :: int

type_synonym signature_cache = "string \<rightharpoonup> signature_entry"

definition cacheSignature :: "int \<Rightarrow> string \<Rightarrow> string \<Rightarrow> signature_cache \<Rightarrow> signature_cache" where
  "cacheSignature now toolUseId sig c =
     (if toolUseId = [] \<or> sig = [] then c
      else c(toolUseId \<mapsto> \<lparr>signature = sig, timestamp = now\<rparr>))"

definition getCachedSignature ::
  "int \<Rightarrow> string \<Rightarrow> signature_cache \<Rightarrow> string option \<times> signature_cache" where
  "getCachedSignature now toolUseId c =
     (if toolUseId = [] then (None, c)
      else
        (case c toolUseId of
           None \<Rightarrow> (None, c)
         | Some entry \<Rightarrow>
             if now - timestamp entry > GEMINI_SIGNATURE_CACHE_TTL_MS
               then (None, c(toolUseId := None))
             else (Some (signature entry), c)))"

text \<open>The two module-level caches, threaded through the converters.\<close>

record caches =
  toolNameMap :: tool_name_map
  signatureCache :: signature_cache

section \<open>The native response (Google/Antigravity format)\<close>

text \<open>
  The fields the converters read. An absent (\<open>undefined\<close>) field is \<open>None\<close>. \<open>thought\<close> is
  the boolean flag of a part (\<open>part.thought === true\<close>). The arguments of a function call
  and the output of a function response are kept as their JSON text, \<open>None\<close> when absent
  or falsy.
  The payloads of the model are the objects of this shape; a payload of another shape (a
  part that is \<open>null\<close>, parts that are not an array) makes a handler throw inside its
  \<open>try\<close> block and is outside the model.
\<close>

record function_call =
  callId :: "string option"
  callName :: string
  callArgs :: "string option"

record function_response =
  responseId :: "string option"
  responseName :: string
  responseOutput :: string

record part =
  thought :: bool
  partText :: "string option"
  functionCall :: "function_call option"
  functionResponse :: "function_response option"
  thoughtSignature :: "string option"

record content =
  role :: "string option"
  parts :: "part list option"

record candidate =
  content :: "content option"
  finishReason :: "string option"

record usage_metadata =
  promptTokenCount :: "int option"
  candidatesTokenCount :: "int option"
  cachedContentTokenCount :: "int option"

record google_response =
  candidates :: "candidate list option"
  usageMetadata :: "usage_metadata option"

text \<open>
  The object that \<open>JSON.parse\<close> returns for one \<open>data:\<close> line: its own response fields and
  the optional \<open>response\<close> envelope; \<open>innerResponse\<close> is \<open>data.response || data\<close>.
\<close>

record sse_data =
  response :: "google_response option"
  own :: google_response

definition innerResponse :: "sse_data \<Rightarrow> google_response" where
  "innerResponse data = (case response data of Some r \<Rightarrow> r | None \<Rightarrow> own data)"

text \<open>
  What the converters take from their environment: the clock (\<open>Date.now()\<close>), the SHA-256
  hex digest of the \<open>crypto\<close> module, the random hex string and the random UUIDs one call
  draws (for the session id and for the request id), the ids that successive calls of
  \<open>generateFunctionCallId\<close> return, and \<open>JSON.parse\<close> on the text of a \<open>data:\<close> line
  (\<open>None\<close> when it throws).
\<close>

record env =
  now :: int
  sha256Hex :: "string \<Rightarrow> string"
  randomHex :: string
  randomUUID :: string
  requestUUID :: string
  freshIds :: "nat \<Rightarrow> string"
  jsonParse :: "string \<Rightarrow> sse_data option"

text \<open>JavaScript truthiness of an optional string, and \<open>x || 0\<close> on an optional number.\<close>

definition truthyStr :: "string option \<Rightarrow> bool" where
  "truthyStr s = (case s of None \<Rightarrow> False | Some t \<Rightarrow> t \<noteq> [])"

definition orZero :: "int option \<Rightarrow> int" where
  "orZero x = (case x of None \<Rightarrow> 0 | Some n \<Rightarrow> n)"

definition orEmpty :: "string option \<Rightarrow> string" where
  "orEmpty s = (case s of None \<Rightarrow> [] | Some t \<Rightarrow> t)"

definition emptyCandidate :: candidate where
  "emptyCandidate = \<lparr>content = None, finishReason = None\<rparr>"

definition firstCandidate :: "google_response \<Rightarrow> candidate" where
  "firstCandidate r = (case candidates r of Some (c # cs) \<Rightarrow> c | _ \<Rightarrow> emptyCandidate)"

definition candidateParts :: "candidate \<Rightarrow> part list" where
  "candidateParts c =
     (case content c of
        None \<Rightarrow> []
      | Some ct \<Rightarrow> (case parts ct of None \<Rightarrow> [] | Some ps \<Rightarrow> ps))"

text \<open>\<open>JSON.stringify(funcCall.args || {})\<close> and the id derived for a call without one.\<close>

definition stringifyArgs :: "string option \<Rightarrow> string" where
  "stringifyArgs a = (case a of None \<Rightarrow> ''{}'' | Some j \<Rightarrow> j)"

definition toolIdOf :: "env \<Rightarrow> function_call \<Rightarrow> string" where
  "toolIdOf e funcCall =
     (if truthyStr (callId funcCall) then orEmpty (callId funcCall)
      else
        let hashInput = callName funcCall @ '':'' @ stringifyArgs (callArgs funcCall)
        in ''call_'' @ take 24 (sha256Hex e hashInput))"

section \<open>OpenAI responses (format/openai/response-converter.js)\<close>

record tool_call =
  tc_index :: "nat option"
  tc_id :: string
  tc_type :: string
  tc_name :: string
  tc_arguments :: string
  tc_thoughtSignature :: "string option"

record message =
  m_role :: string
  m_content :: "string option"
  reasoning_content :: "string option"
  tool_calls :: "tool_call list option"

record openai_usage =
  prompt_tokens :: int
  completion_tokens :: int
  total_tokens :: int
  cached_tokens :: "int option"

record choice =
  c_index :: nat
  c_message :: message
  finish_reason :: string

record openai_response =
  r_id :: string
  r_object :: string
  r_created :: int
  r_model :: string
  choices :: "choice list"
  usage :: openai_usage

record conv_state =
  messageContent :: string
  reasoningContent :: string
  toolCalls :: "tool_call list"
  toolCallIndex :: nat
  cv_caches :: caches

text \<open>
  The signature of a function-call part is cached when it is truthy and at least
  \<open>MIN_SIGNATURE_LENGTH\<close> long.
\<close>

definition cacheIfLong :: "int \<Rightarrow> string \<Rightarrow> string option \<Rightarrow> signature_cache \<Rightarrow> signature_cache" where
  "cacheIfLong t toolId sig c =
     (if truthyStr sig \<and> length (orEmpty sig) \<ge> MIN_SIGNATURE_LENGTH
        then cacheSignature t toolId (orEmpty sig) c
      else c)"

text \<open>The body of the loop over \<open>parts\<close> in \<open>convertGoogleToOpenAI\<close>.\<close>

definition convertPart :: "env \<Rightarrow> string \<Rightarrow> string \<Rightarrow> conv_state \<Rightarrow> part \<Rightarrow> conv_state" where
  "convertPart e originalModel sessionId st p =
     (if thought p then
        st\<lparr>reasoningContent := reasoningContent st @ orEmpty (partText p)\<rparr>
      else
        (case functionCall p of
           Some funcCall \<Rightarrow>
             let toolId = toolIdOf e funcCall;
                 (found, names) =
                    getOriginalToolName (now e) sessionId originalModel (callName funcCall)
                      (toolNameMap (cv_caches st));
                 origName = (case found of Some n \<Rightarrow> n | None \<Rightarrow> callName funcCall);
                 sig = thoughtSignature p;
                 sigs = cacheIfLong (now e) toolId sig (signatureCache (cv_caches st))
             in st\<lparr>toolCalls := toolCalls st @
                       [\<lparr>tc_index = None, tc_id = toolId, tc_type = ''function'',
                         tc_name = origName,
                         tc_arguments = stringifyArgs (callArgs funcCall),
                         tc_thoughtSignature = (if truthyStr sig then sig else None)\<rparr>],
                    toolCallIndex := Suc (toolCallIndex st),
                    cv_caches := \<lparr>toolNameMap = names, signatureCache = sigs\<rparr>\<rparr>
         | None \<Rightarrow>
             (case partText p of
                Some t \<Rightarrow> st\<lparr>messageContent := messageContent st @ t\<rparr>
              | None \<Rightarrow> st)))"

definition convertGoogleToOpenAI ::
  "env \<Rightarrow> google_response \<Rightarrow> string \<Rightarrow> string \<Rightarrow> caches \<Rightarrow> openai_response \<times> caches" where
  "convertGoogleToOpenAI e googleResponse originalModel sessionId cs =
     (let cand = firstCandidate googleResponse;
          ps = candidateParts cand;
          u = (case usageMetadata googleResponse of
                 Some m \<Rightarrow> m
               | None \<Rightarrow> \<lparr>promptTokenCount = None, candidatesTokenCount = None,
                            cachedContentTokenCount = None\<rparr>);
          st = foldl (convertPart e originalModel sessionId)
                 \<lparr>messageContent = [], reasoningContent = [], toolCalls = [],
                  toolCallIndex = 0, cv_caches = cs\<rparr> ps;
          fr = mapFinishReason (finishReason cand);
          msg = \<lparr>m_role = ''assistant'',
                 m_content = (if messageContent st = [] then None else Some (messageContent st)),
                 reasoning_content =
                   (if reasoningContent st \<noteq> [] then Some (reasoningContent st) else None),
                 tool_calls = (if length (toolCalls st) > 0 then Some (toolCalls st) else None)\<rparr>
      in (\<lparr>r_id = ''chatcmpl-'' @ randomHex e,
           r_object = ''chat.completion'',
           r_created = now e div 1000,
           r_model = originalModel,
           choices = [\<lparr>c_index = 0, c_message = msg, finish_reason = fr\<rparr>],
           usage = \<lparr>prompt_tokens = orZero (promptTokenCount u),
                    completion_tokens = orZero (candidatesTokenCount u),
                    total_tokens = orZero (promptTokenCount u) + orZero (candidatesTokenCount u),
                    cached_tokens =
                      (if orZero (cachedContentTokenCount u) \<noteq> 0
                         then cachedContentTokenCount u else None)\<rparr>\<rparr>,
          cv_caches st))"

section \<open>Reading a server-sent-event body\<close>

text \<open>
  A body is the list of text chunks its reader yields (\<open>decoder.decode(value, {stream:
  true})\<close>); the reader's loop appends each to \<open>buffer\<close>, splits at line feeds, keeps the
  last piece as the new buffer and handles the lines before it. What remains in the buffer
  when the body ends is never handled.
\<close>

definition sseLines :: "string \<Rightarrow> string list" where
  "sseLines buf = butlast (splitNewline buf)"

definition sseRest :: "string \<Rightarrow> string" where
  "sseRest buf = last (splitNewline buf)"

text \<open>
  The payload of a line: \<open>None\<close> when the line does not start with \<open>data:\<close>, when nothing
  follows the prefix, or when \<open>JSON.parse\<close> throws (the error is caught and logged).
\<close>

definition linePayload :: "env \<Rightarrow> string \<Rightarrow> sse_data option" where
  "linePayload e line =
     (if \<not> startsWith line ''data:'' then None
      else
        let jsonText = trim (drop 5 line) in
        if jsonText = [] then None else jsonParse e jsonText)"

section \<open>The non-streaming thinking path (routes/openai.js)\<close>

record acc_state =
  acc_buffer :: string
  finalParts :: "part list"
  acc_usageMetadata :: usage_metadata
  acc_finishReason :: string
  accumulatedThinkingText :: string
  accumulatedThinkingSignature :: string
  accumulatedText :: string

definition flushThinking :: "acc_state \<Rightarrow> acc_state" where
  "flushThinking st =
     (if accumulatedThinkingText st \<noteq> [] then
        st\<lparr>finalParts := finalParts st @
              [\<lparr>thought = True, partText = Some (accumulatedThinkingText st),
                functionCall = None, functionResponse = None,
                thoughtSignature = Some (accumulatedThinkingSignature st)\<rparr>],
           accumulatedThinkingText := [],
           accumulatedThinkingSignature := []\<rparr>
      else st)"

definition flushText :: "acc_state \<Rightarrow> acc_state" where
  "flushText st =
     (if accumulatedText st \<noteq> [] then
        st\<lparr>finalParts := finalParts st @
              [\<lparr>thought = False, partText = Some (accumulatedText st),
                functionCall = None, functionResponse = None,
                thoughtSignature = None\<rparr>],
           accumulatedText := []\<rparr>
      else st)"

text \<open>The body of the loop over \<open>parts\<close> in \<open>accumulateSSEResponse\<close>.\<close>

definition accPart :: "acc_state \<Rightarrow> part \<Rightarrow> acc_state" where
  "accPart st p =
     (if thought p then
        let st = flushText st;
            st = st\<lparr>accumulatedThinkingText := accumulatedThinkingText st @ orEmpty (partText p)\<rparr>
        in if truthyStr (thoughtSignature p)
             then st\<lparr>accumulatedThinkingSignature := orEmpty (thoughtSignature p)\<rparr>
           else st
      else if functionCall p \<noteq> None then
        let st = flushThinking st;
            st = flushText st
        in st\<lparr>finalParts := finalParts st @ [p]\<rparr>
      else
        (case partText p of
           None \<Rightarrow> st
         | Some t \<Rightarrow>
             if t = [] then st
             else
               let st = flushThinking st
               in st\<lparr>accumulatedText := accumulatedText st @ t\<rparr>))"

text \<open>The body of the \<open>try\<close> block, after \<open>JSON.parse\<close>.\<close>

definition accData :: "acc_state \<Rightarrow> sse_data \<Rightarrow> acc_state" where
  "accData st data =
     (let inner = innerResponse data;
          st = (case usageMetadata inner of
                  Some u \<Rightarrow> st\<lparr>acc_usageMetadata := u\<rparr>
                | None \<Rightarrow> st);
          cand = firstCandidate inner;
          st = (if truthyStr (finishReason cand)
                  then st\<lparr>acc_finishReason := orEmpty (finishReason cand)\<rparr>
                else st)
      in foldl accPart st (candidateParts cand))"

definition accLine :: "env \<Rightarrow> acc_state \<Rightarrow> string \<Rightarrow> acc_state" where
  "accLine e st line =
     (case linePayload e line of None \<Rightarrow> st | Some data \<Rightarrow> accData st data)"

definition accChunk :: "env \<Rightarrow> acc_state \<Rightarrow> string \<Rightarrow> acc_state" where
  "accChunk e st v =
     (let buf = acc_buffer st @ v;
          st = st\<lparr>acc_buffer := sseRest buf\<rparr>
      in foldl (accLine e) st (sseLines buf))"

definition accInit :: acc_state where
  "accInit =
     \<lparr>acc_buffer = [], finalParts = [],
      acc_usageMetadata = \<lparr>promptTokenCount = None, candidatesTokenCount = None,
                           cachedContentTokenCount = None\<rparr>,
      acc_finishReason = ''STOP'',
      accumulatedThinkingText = [], accumulatedThinkingSignature = [],
      accumulatedText = []\<rparr>"

definition accumulateSSEResponse :: "env \<Rightarrow> string list \<Rightarrow> google_response" where
  "accumulateSSEResponse e body =
     (let st = foldl (accChunk e) accInit body;
          st = flushThinking st;
          st = flushText st
      in \<lparr>candidates =
            Some [\<lparr>content = Some \<lparr>role = None, parts = Some (finalParts st)\<rparr>,
                   finishReason = Some (acc_finishReason st)\<rparr>],
          usageMetadata = Some (acc_usageMetadata st)\<rparr>)"

text \<open>
  What a body carries, read off the whole text: the payloads of its complete \<open>data:\<close>
  lines in order, their parts in order, and the last finish reason any of them states.
\<close>

definition bodyPayloads :: "env \<Rightarrow> string list \<Rightarrow> sse_data list" where
  "bodyPayloads e body = List.map_filter (linePayload e) (sseLines (concat body))"

definition payloadParts :: "sse_data \<Rightarrow> part list" where
  "payloadParts d = candidateParts (firstCandidate (innerResponse d))"

definition payloadFinish :: "sse_data \<Rightarrow> string option" where
  "payloadFinish d = finishReason (firstCandidate (innerResponse d))"

definition statedFinish :: "sse_data list \<Rightarrow> string list" where
  "statedFinish ds =
     map (\<lambda>d. orEmpty (payloadFinish d)) (filter (\<lambda>d. truthyStr (payloadFinish d)) ds)"

definition bodyParts :: "env \<Rightarrow> string list \<Rightarrow> part list" where
  "bodyParts e body = concat (map payloadParts (bodyPayloads e body))"

definition bodyFinishReasons :: "env \<Rightarrow> string list \<Rightarrow> string list" where
  "bodyFinishReasons e body = statedFinish (bodyPayloads e body)"

section \<open>The streaming path (format/openai/response-converter.js)\<close>

datatype delta =
    DeltaStart
  | DeltaReasoning string
  | DeltaContent string
  | DeltaToolCalls "tool_call list"
  | DeltaEmpty

record stream_choice =
  sc_index :: nat
  sc_delta :: delta
  sc_finish_reason :: "string option"

record stream_chunk =
  ch_id :: string
  ch_object :: string
  ch_created :: int
  ch_model :: string
  ch_choices :: "stream_choice list"
  ch_usage :: "openai_usage option"

text \<open>
  \<open>createStreamChunk({id, model, delta, finishReason = null, usage = null})\<close>: the two
  defaults are the \<open>None\<close> arguments of the callers below.
\<close>

definition createStreamChunk ::
  "env \<Rightarrow> string \<Rightarrow> string \<Rightarrow> delta \<Rightarrow> string option \<Rightarrow> openai_usage option \<Rightarrow> stream_chunk" where
  "createStreamChunk e cid mdl d fr u =
     \<lparr>ch_id = cid, ch_object = ''chat.completion.chunk'', ch_created = now e div 1000,
      ch_model = mdl,
      ch_choices = [\<lparr>sc_index = 0, sc_delta = d, sc_finish_reason = fr\<rparr>],
      ch_usage = u\<rparr>"

record stream_state =
  st_buffer :: string
  hasEmittedStart :: bool
  currentBlockType :: "string option"
  currentThinkingSignature :: string
  st_finishReason :: string
  inputTokens :: int
  outputTokens :: int
  cacheReadTokens :: int
  pendingToolCalls :: "tool_call list"
  yielded :: "stream_chunk list"
  st_caches :: caches

definition yield :: "stream_chunk \<Rightarrow> stream_state \<Rightarrow> stream_state" where
  "yield c st = st\<lparr>yielded := yielded st @ [c]\<rparr>"

text \<open>The body of the loop over \<open>parts\<close> in \<open>streamGoogleToOpenAI\<close>.\<close>

definition streamPart ::
  "env \<Rightarrow> string \<Rightarrow> string \<Rightarrow> string \<Rightarrow> stream_state \<Rightarrow> part \<Rightarrow> stream_state" where
  "streamPart e completionId originalModel sessionId st p =
     (if thought p then
        let t = orEmpty (partText p);
            st = (if truthyStr (thoughtSignature p)
                    then st\<lparr>currentThinkingSignature := orEmpty (thoughtSignature p)\<rparr>
                  else st);
            st = (if t \<noteq> []
                    then yield (createStreamChunk e completionId originalModel
                                  (DeltaReasoning t) None None) st
                  else st)
        in st\<lparr>currentBlockType := Some ''thinking''\<rparr>
      else if truthyStr (partText p) then
        let st = yield (createStreamChunk e completionId originalModel
                          (DeltaContent (orEmpty (partText p))) None None) st
        in st\<lparr>currentBlockType := Some ''text''\<rparr>
      else
        (case functionCall p of
           None \<Rightarrow> st
         | Some funcCall \<Rightarrow>
             let toolId = toolIdOf e funcCall;
                 (found, names) =
                    getOriginalToolName (now e) sessionId originalModel (callName funcCall)
                      (toolNameMap (st_caches st));
                 origName = (case found of Some n \<Rightarrow> n | None \<Rightarrow> callName funcCall);
                 sig = thoughtSignature p;
                 sigs = cacheIfLong (now e) toolId sig (signatureCache (st_caches st));
                 toolCall =
                   \<lparr>tc_index = Some (length (pendingToolCalls st)), tc_id = toolId,
                    tc_type = ''function'', tc_name = origName,
                    tc_arguments = stringifyArgs (callArgs funcCall),
                    tc_thoughtSignature = (if truthyStr sig then sig else None)\<rparr>
             in st\<lparr>pendingToolCalls := pendingToolCalls st @ [toolCall],
                    st_finishReason := ''tool_calls'',
                    currentBlockType := Some ''tool_use'',
                    st_caches := \<lparr>toolNameMap = names, signatureCache = sigs\<rparr>\<rparr>))"

text \<open>\<open>x || previous\<close> on a token count.\<close>

definition orPrevious :: "int option \<Rightarrow> int \<Rightarrow> int" where
  "orPrevious x previous = (case x of None \<Rightarrow> previous | Some n \<Rightarrow> if n \<noteq> 0 then n else previous)"

definition streamData ::
  "env \<Rightarrow> string \<Rightarrow> string \<Rightarrow> string \<Rightarrow> stream_state \<Rightarrow> sse_data \<Rightarrow> stream_state" where
  "streamData e completionId originalModel sessionId st data =
     (let inner = innerResponse data;
          st = (case usageMetadata inner of
                  Some u \<Rightarrow>
                    st\<lparr>inputTokens := orPrevious (promptTokenCount u) (inputTokens st),
                       outputTokens := orPrevious (candidatesTokenCount u) (outputTokens st),
                       cacheReadTokens :=
                         orPrevious (cachedContentTokenCount u) (cacheReadTokens st)\<rparr>
                | None \<Rightarrow> st);
          cand = firstCandidate inner;
          ps = candidateParts cand;
          st = (if \<not> hasEmittedStart st \<and> length ps > 0
                  then yield (createStreamChunk e completionId originalModel DeltaStart None None)
                         (st\<lparr>hasEmittedStart := True\<rparr>)
                else st);
          st = foldl (streamPart e completionId originalModel sessionId) st ps
      in if truthyStr (finishReason cand)
           then st\<lparr>st_finishReason := mapFinishReason (finishReason cand)\<rparr>
         else st)"

definition streamLine ::
  "env \<Rightarrow> string \<Rightarrow> string \<Rightarrow> string \<Rightarrow> stream_state \<Rightarrow> string \<Rightarrow> stream_state" where
  "streamLine e completionId originalModel sessionId st line =
     (case linePayload e line of
        None \<Rightarrow> st
      | Some data \<Rightarrow> streamData e completionId originalModel sessionId st data)"

definition streamChunk ::
  "env \<Rightarrow> string \<Rightarrow> string \<Rightarrow> string \<Rightarrow> stream_state \<Rightarrow> string \<Rightarrow> stream_state" where
  "streamChunk e completionId originalModel sessionId st v =
     (let buf = st_buffer st @ v;
          st = st\<lparr>st_buffer := sseRest buf\<rparr>
      in foldl (streamLine e completionId originalModel sessionId) st (sseLines buf))"

definition streamInit :: "caches \<Rightarrow> stream_state" where
  "streamInit cs =
     \<lparr>st_buffer = [], hasEmittedStart = False, currentBlockType = None,
      currentThinkingSignature = [], st_finishReason = ''stop'',
      inputTokens = 0, outputTokens = 0, cacheReadTokens = 0,
      pendingToolCalls = [], yielded = [], st_caches = cs\<rparr>"

text \<open>
  The generator, as the list of chunks it yields for a body that is read to its end, and
  the caches it leaves.
\<close>

definition streamGoogleToOpenAI ::
  "env \<Rightarrow> string list \<Rightarrow> string \<Rightarrow> string \<Rightarrow> caches \<Rightarrow> stream_chunk list \<times> caches" where
  "streamGoogleToOpenAI e responseBody originalModel sessionId cs =
     (let completionId = ''chatcmpl-'' @ randomHex e;
          st = foldl (streamChunk e completionId originalModel sessionId)
                 (streamInit cs) responseBody;
          st = (if length (pendingToolCalls st) > 0
                  then yield (createStreamChunk e completionId originalModel
                                (DeltaToolCalls (pendingToolCalls st)) None None) st
                else st);
          st = yield (createStreamChunk e completionId originalModel DeltaEmpty
                        (Some (st_finishReason st))
                        (Some \<lparr>prompt_tokens = inputTokens st,
                               completion_tokens = outputTokens st,
                               total_tokens = inputTokens st + outputTokens st,
                               cached_tokens =
                                 (if cacheReadTokens st > 0 then Some (cacheReadTokens st)
                                  else None)\<rparr>)) st
      in (yielded st, st_caches st))"

text \<open>The \<open>finish_reason\<close> a chunk carries (\<open>choices[0].finish_reason\<close>).\<close>

definition chunkFinishReason :: "stream_chunk \<Rightarrow> string option" where
  "chunkFinishReason c = (case ch_choices c of [] \<Rightarrow> None | ch # rest \<Rightarrow> sc_finish_reason ch)"

text \<open>The invariant of the generator's loop: no chunk yielded so far has a finish reason.\<close>

definition noFinish :: "stream_state \<Rightarrow> bool" where
  "noFinish st = list_all (\<lambda>c. chunkFinishReason c = None) (yielded st)"

section \<open>Gemini responses (format/gemini/response-converter.js)\<close>

text \<open>The function mapped over the parts by \<open>processParts\<close>, with the caches it updates.\<close>

definition processPart :: "env \<Rightarrow> string \<Rightarrow> string \<Rightarrow> caches \<Rightarrow> part \<Rightarrow> part \<times> caches" where
  "processPart e sessionId modelName cs p =
     (case functionCall p of
        None \<Rightarrow> (p, cs)
      | Some funcCall \<Rightarrow>
          let (found, names) =
                getOriginalToolName (now e) sessionId modelName (callName funcCall)
                  (toolNameMap cs);
              funcCall = (case found of
                            Some n \<Rightarrow> funcCall\<lparr>callName := n\<rparr>
                          | None \<Rightarrow> funcCall);
              sig = thoughtSignature p;
              sigs = (if truthyStr sig \<and> length (orEmpty sig) \<ge> MIN_SIGNATURE_LENGTH
                        \<and> truthyStr (callId funcCall)
                        then cacheSignature (now e) (orEmpty (callId funcCall)) (orEmpty sig)
                               (signatureCache cs)
                      else signatureCache cs)
          in (p\<lparr>functionCall := Some funcCall\<rparr>,
              \<lparr>toolNameMap = names, signatureCache = sigs\<rparr>))"

fun processPartsLoop ::
  "env \<Rightarrow> string \<Rightarrow> string \<Rightarrow> caches \<Rightarrow> part list \<Rightarrow> part list \<times> caches" where
  "processPartsLoop e sessionId modelName cs [] = ([], cs)"
| "processPartsLoop e sessionId modelName cs (p # ps) =
     (let (p', cs') = processPart e sessionId modelName cs p;
          (ps', cs'') = processPartsLoop e sessionId modelName cs' ps
      in (p' # ps', cs''))"

definition processParts ::
  "env \<Rightarrow> part list option \<Rightarrow> string \<Rightarrow> string \<Rightarrow> caches \<Rightarrow> part list option \<times> caches" where
  "processParts e ps sessionId modelName cs =
     (case ps of
        None \<Rightarrow> (None, cs)
      | Some l \<Rightarrow>
          let (l', cs') = processPartsLoop e sessionId modelName cs l in (Some l', cs'))"

section \<open>Session ids\<close>

subsection \<open>OpenAI requests (format/openai/request-converter.js)\<close>

record content_block =
  blockType :: "string option"
  blockText :: "string option"

datatype message_content =
    ContentString string
  | ContentArray "content_block list"
  | ContentOther

record openai_message =
  msgRole :: "string option"
  msgContent :: message_content

text \<open>\<open>list.join('\n')\<close>.\<close>

fun joinNewline :: "string list \<Rightarrow> string" where
  "joinNewline [] = []"
| "joinNewline [x] = x"
| "joinNewline (x # y # zs) = x @ [CHR 0x0A] @ joinNewline (y # zs)"

fun deriveSessionId_openai :: "env \<Rightarrow> openai_message list \<Rightarrow> string" where
  "deriveSessionId_openai e [] = randomUUID e"
| "deriveSessionId_openai e (msg # rest) =
     (if msgRole msg = Some ''user'' then
        let content =
              (case msgContent msg of
                 ContentString s \<Rightarrow> s
               | ContentArray blocks \<Rightarrow>
                   joinNewline
                     (map (\<lambda>block. orEmpty (blockText block))
                        (filter (\<lambda>block. blockType block = Some ''text'' \<and> truthyStr (blockText block))
                           blocks))
               | ContentOther \<Rightarrow> [])
        in if content \<noteq> [] then take 32 (sha256Hex e content)
           else deriveSessionId_openai e rest
      else deriveSessionId_openai e rest)"

subsection \<open>Gemini requests (format/gemini/request-converter.js)\<close>

text \<open>The inner loop over the parts of one content: the first truthy text, if any.\<close>

fun firstTextOf :: "part list \<Rightarrow> string option" where
  "firstTextOf [] = None"
| "firstTextOf (p # ps) = (if truthyStr (partText p) then partText p else firstTextOf ps)"

fun deriveSessionId_gemini :: "env \<Rightarrow> content list \<Rightarrow> string" where
  "deriveSessionId_gemini e [] = randomUUID e"
| "deriveSessionId_gemini e (c # rest) =
     (if role c = Some ''user'' \<and> parts c \<noteq> None then
        (case firstTextOf (case parts c of Some ps \<Rightarrow> ps | None \<Rightarrow> []) of
           Some t \<Rightarrow> take 32 (sha256Hex e t)
         | None \<Rightarrow> deriveSessionId_gemini e rest)
      else deriveSessionId_gemini e rest)"

subsection \<open>The spec's wording\<close>

text \<open>
  The first user text of a request: for an OpenAI request the text of the first user
  message that has any (a string content, or the text blocks of an array content joined
  by line feeds); for a Gemini request the first non-empty text among the parts of the
  user contents. The session id is the digest of that text cut to 32 characters, or the
  random UUID when there is none.
\<close>

definition messageText :: "openai_message \<Rightarrow> string" where
  "messageText msg =
     (case msgContent msg of
        ContentString s \<Rightarrow> s
      | ContentArray blocks \<Rightarrow>
          joinNewline
            (map (\<lambda>b. orEmpty (blockText b))
               (filter (\<lambda>b. blockType b = Some ''text'' \<and> truthyStr (blockText b)) blocks))
      | ContentOther \<Rightarrow> [])"

definition firstUserText_openai :: "openai_message list \<Rightarrow> string option" where
  "firstUserText_openai msgs =
     (case filter (\<lambda>t. t \<noteq> [])
             (map messageText (filter (\<lambda>m. msgRole m = Some ''user'') msgs)) of
        [] \<Rightarrow> None
      | t # rest \<Rightarrow> Some t)"

definition firstUserText_gemini :: "content list \<Rightarrow> string option" where
  "firstUserText_gemini cs =
     (case filter (\<lambda>t. t \<noteq> [])
             (concat (map (\<lambda>c. map (\<lambda>p. orEmpty (partText p))
                                  (case parts c of Some ps \<Rightarrow> ps | None \<Rightarrow> []))
                        (filter (\<lambda>c. role c = Some ''user'') cs))) of
        [] \<Rightarrow> None
      | t # rest \<Rightarrow> Some t)"

definition session_id_spec :: "env \<Rightarrow> string option \<Rightarrow> string" where
  "session_id_spec e firstUserText =
     (case firstUserText of
        Some t \<Rightarrow> take 32 (sha256Hex e t)
      | None \<Rightarrow> randomUUID e)"

section \<open>Thinking-capable models (constants.js)\<close>

text \<open>
  \<open>lower.match(/gemini-(\d+)/)\<close>: the leftmost "gemini-" that a digit follows, with the
  longest run of digits after it, read as a decimal number by \<open>parseInt\<close>.
\<close>

definition digitsToNat :: "string \<Rightarrow> nat" where
  "digitsToNat ds = foldl (\<lambda>n c. 10 * n + ((of_char c :: nat) - 48)) 0 ds"

fun geminiVersion :: "string \<Rightarrow> nat option" where
  "geminiVersion [] = None"
| "geminiVersion (c # cs) =
     (if startsWith (c # cs) ''gemini-'' \<and> takeWhile isDigit (drop 7 (c # cs)) \<noteq> []
        then Some (digitsToNat (takeWhile isDigit (drop 7 (c # cs))))
      else geminiVersion cs)"

definition isThinkingModel :: "string \<Rightarrow> bool" where
  "isThinkingModel modelName =
     (let lower = toLowerCase modelName in
      if strIncludes lower ''claude'' \<and> strIncludes lower ''thinking'' then True
      else if strIncludes lower ''gemini'' then
        (if strIncludes lower ''thinking'' then True
         else (case geminiVersion lower of Some v \<Rightarrow> v \<ge> 3 | None \<Rightarrow> False))
      else False)"

section \<open>Tool declarations (utils/tool-converter.js)\<close>

text \<open>
  A parameter schema is kept as its \<open>type\<close>, whether it has \<open>properties\<close> (as JSON text),
  and the JSON text of the rest. The two helpers of \<open>schema-sanitizer.js\<close> are outside the
  translator and are taken as they come.
\<close>

record schema =
  schemaType :: "string option"
  schemaProperties :: "string option"
  schemaRest :: string

record schema_helpers =
  sanitizeSchema :: "schema \<Rightarrow> schema option"
  cleanSchemaForGemini :: "schema \<Rightarrow> schema"

definition emptySchema :: schema where
  "emptySchema = \<lparr>schemaType = None, schemaProperties = None, schemaRest = ''{}''\<rparr>"

record function_declaration =
  fdName :: string
  fdDescription :: string
  fdParameters :: schema

definition jsString :: "string option \<Rightarrow> js_value" where
  "jsString s = (case s of None \<Rightarrow> JUndefined | Some t \<Rightarrow> JString t)"

definition convertSingleTool ::
  "env \<Rightarrow> schema_helpers \<Rightarrow> string option \<Rightarrow> string option \<Rightarrow> schema option \<Rightarrow> string \<Rightarrow> string
     \<Rightarrow> tool_name_map \<Rightarrow> function_declaration \<times> tool_name_map" where
  "convertSingleTool e h name description parameters sessionId modelName names =
     (let origName = name;
          safeName = sanitizeToolName (jsString origName);
          names = (if sessionId \<noteq> [] \<and> modelName \<noteq> [] \<and> Some safeName \<noteq> origName
                     then setToolNameMapping (now e) sessionId modelName safeName
                            (orEmpty origName) names
                   else names);
          rawParams = (case parameters of Some p \<Rightarrow> p | None \<Rightarrow> emptySchema);
          cleanedParams = (case sanitizeSchema h rawParams of Some c \<Rightarrow> c | None \<Rightarrow> emptySchema);
          modelFamily = getModelFamily modelName;
          cleanedParams = (if modelFamily = ''gemini'' then cleanSchemaForGemini h cleanedParams
                           else cleanedParams);
          cleanedParams = (if schemaType cleanedParams = None
                             then cleanedParams\<lparr>schemaType := Some ''object''\<rparr>
                           else cleanedParams);
          cleanedParams = (if schemaType cleanedParams = Some ''object''
                              \<and> schemaProperties cleanedParams = None
                             then cleanedParams\<lparr>schemaProperties := Some ''{}''\<rparr>
                           else cleanedParams)
      in (\<lparr>fdName = safeName, fdDescription = orEmpty description,
           fdParameters = cleanedParams\<rparr>, names))"

record declaration_in =
  declName :: "string option"
  declDescription :: "string option"
  declParameters :: "schema option"

record gemini_tool =
  functionDeclarations :: "declaration_in list option"
  toolName :: "string option"
  toolDescription :: "string option"
  toolParameters :: "schema option"
  toolInputSchema :: "schema option"

datatype antigravity_tool =
    FunctionDeclarations "function_declaration list"
  | UnknownTool gemini_tool

text \<open>\<open>list.map(f)\<close> for an \<open>f\<close> that also updates a state.\<close>

fun mapAccum :: "('s \<Rightarrow> 'a \<Rightarrow> 'b \<times> 's) \<Rightarrow> 's \<Rightarrow> 'a list \<Rightarrow> 'b list \<times> 's" where
  "mapAccum f s [] = ([], s)"
| "mapAccum f s (x # xs) =
     (let (y, s') = f s x;
          (ys, s'') = mapAccum f s' xs
      in (y # ys, s''))"

definition convertGeminiTool ::
  "env \<Rightarrow> schema_helpers \<Rightarrow> string \<Rightarrow> string \<Rightarrow> tool_name_map \<Rightarrow> gemini_tool
     \<Rightarrow> antigravity_tool \<times> tool_name_map" where
  "convertGeminiTool e h sessionId modelName names tool =
     (case functionDeclarations tool of
        Some fds \<Rightarrow>
          let (ds, names') =
                mapAccum (\<lambda>ns fd. convertSingleTool e h (declName fd) (declDescription fd)
                                     (declParameters fd) sessionId modelName ns) names fds
          in (FunctionDeclarations ds, names')
      | None \<Rightarrow>
          if truthyStr (toolName tool) then
            let (d, names') =
                  convertSingleTool e h (toolName tool) (toolDescription tool)
                    (case toolParameters tool of Some p \<Rightarrow> Some p | None \<Rightarrow> toolInputSchema tool)
                    sessionId modelName names
            in (FunctionDeclarations [d], names')
          else (UnknownTool tool, names))"

definition convertGeminiToolsToAntigravity ::
  "env \<Rightarrow> schema_helpers \<Rightarrow> gemini_tool list option \<Rightarrow> string \<Rightarrow> string \<Rightarrow> tool_name_map
     \<Rightarrow> antigravity_tool list \<times> tool_name_map" where
  "convertGeminiToolsToAntigravity e h geminiTools sessionId modelName names =
     (case geminiTools of
        None \<Rightarrow> ([], names)
      | Some toolList \<Rightarrow>
          if length toolList = 0 then ([], names)
          else mapAccum (convertGeminiTool e h sessionId modelName) names toolList)"

section \<open>Gemini requests (format/gemini/request-converter.js)\<close>

subsection \<open>Function-call ids\<close>

text \<open>
  First pass of \<open>processFunctionCallIds\<close>, on one part of a model content: a call without
  id gets the next generated one; every call's id is recorded. The state is the number of
  ids generated so far and the list \<open>functionCallIds\<close>.
\<close>

definition collectCallId :: "env \<Rightarrow> nat \<times> string list \<Rightarrow> part \<Rightarrow> part \<times> (nat \<times> string list)" where
  "collectCallId e s p =
     (case functionCall p of
        None \<Rightarrow> (p, s)
      | Some fc \<Rightarrow>
          if \<not> truthyStr (callId fc) then
            let newId = freshIds e (fst s)
            in (p\<lparr>functionCall := Some (fc\<lparr>callId := Some newId\<rparr>)\<rparr>,
                (Suc (fst s), snd s @ [newId]))
          else (p, (fst s, snd s @ [orEmpty (callId fc)])))"

definition collectCallIds ::
  "env \<Rightarrow> nat \<times> string list \<Rightarrow> content \<Rightarrow> content \<times> (nat \<times> string list)" where
  "collectCallIds e s c =
     (case parts c of
        None \<Rightarrow> (c, s)
      | Some ps \<Rightarrow>
          if role c = Some ''model'' then
            let (ps', s') = mapAccum (collectCallId e) s ps
            in (c\<lparr>parts := Some ps'\<rparr>, s')
          else (c, s))"

text \<open>
  Second pass, on one part of a user content: a response without id takes the id at
  \<open>responseIndex\<close>, while there is one.
\<close>

definition assignResponseId :: "string list \<Rightarrow> nat \<Rightarrow> part \<Rightarrow> part \<times> nat" where
  "assignResponseId functionCallIds responseIndex p =
     (case functionResponse p of
        None \<Rightarrow> (p, responseIndex)
      | Some fr \<Rightarrow>
          if \<not> truthyStr (responseId fr) \<and> responseIndex < length functionCallIds then
            (p\<lparr>functionResponse :=
                 Some (fr\<lparr>responseId := Some (functionCallIds ! responseIndex)\<rparr>)\<rparr>,
             Suc responseIndex)
          else (p, responseIndex))"

definition assignResponseIds :: "string list \<Rightarrow> nat \<Rightarrow> content \<Rightarrow> content \<times> nat" where
  "assignResponseIds functionCallIds responseIndex c =
     (case parts c of
        None \<Rightarrow> (c, responseIndex)
      | Some ps \<Rightarrow>
          if role c = Some ''user'' then
            let (ps', i) = mapAccum (assignResponseId functionCallIds) responseIndex ps
            in (c\<lparr>parts := Some ps'\<rparr>, i)
          else (c, responseIndex))"

definition processFunctionCallIds :: "env \<Rightarrow> content list \<Rightarrow> content list" where
  "processFunctionCallIds e contents =
     (let (contents, s) = mapAccum (collectCallIds e) (0, []) contents;
          functionCallIds = snd s;
          (contents, responseIndex) = mapAccum (assignResponseIds functionCallIds) 0 contents
      in contents)"

subsection \<open>Thoughts and signatures of a model content\<close>

definition createThoughtPart :: "string \<Rightarrow> part" where
  "createThoughtPart t =
     \<lparr>thought = True, partText = Some (if t = [] then '' '' else t), functionCall = None,
      functionResponse = None, thoughtSignature = None\<rparr>"

text \<open>
  The index a loop \<open>for (i = 0; i < xs.length; i++) if (P(xs[i])) index = i\<close> ends with
  (\<open>None\<close> for \<open>-1\<close>), and \<open>xs.splice(i, 1)\<close>.
\<close>

definition lastIndexWhere :: "('a \<Rightarrow> bool) \<Rightarrow> 'a list \<Rightarrow> nat option" where
  "lastIndexWhere P xs =
     (case filter (\<lambda>i. P (xs ! i)) [0..<length xs] of
        [] \<Rightarrow> None
      | i # rest \<Rightarrow> Some (last (i # rest)))"

definition removeAt :: "nat \<Rightarrow> 'a list \<Rightarrow> 'a list" where
  "removeAt i xs = take i xs @ drop (Suc i) xs"

text \<open>
  The loop that gives signatures to the function calls that have none: from the
  stand-alone signature parts first, then from the signature cache. The state is
  \<open>sigIndex\<close> and the cache (a lookup deletes an expired entry).
\<close>

definition assignSignature ::
  "env \<Rightarrow> (nat \<times> string) list \<Rightarrow> nat \<times> signature_cache \<Rightarrow> part
     \<Rightarrow> part \<times> (nat \<times> signature_cache)" where
  "assignSignature e standaloneSignatures s p =
     (case functionCall p of
        None \<Rightarrow> (p, s)
      | Some fc \<Rightarrow>
          if truthyStr (thoughtSignature p) then (p, s)
          else if fst s < length standaloneSignatures then
            (p\<lparr>thoughtSignature := Some (snd (standaloneSignatures ! fst s))\<rparr>,
             (Suc (fst s), snd s))
          else
            let (cachedSig, c) = getCachedSignature (now e) (orEmpty (callId fc)) (snd s)
            in ((if truthyStr cachedSig then p\<lparr>thoughtSignature := cachedSig\<rparr> else p),
                (fst s, c)))"

definition processModelThoughts ::
  "env \<Rightarrow> signature_cache \<Rightarrow> part list \<Rightarrow> part list \<times> signature_cache" where
  "processModelThoughts e cache ps =
     (let thoughtIndex =
            lastIndexWhere (\<lambda>p. thought p \<and> \<not> truthyStr (thoughtSignature p)) ps;
          signatureIndex =
            lastIndexWhere (\<lambda>p. truthyStr (thoughtSignature p) \<and> \<not> thought p) ps;
          ps = (case thoughtIndex of
                  None \<Rightarrow> createThoughtPart '' '' # ps
                | Some ti \<Rightarrow>
                    (case signatureIndex of
                       None \<Rightarrow> ps
                     | Some si \<Rightarrow>
                         removeAt si
                           (ps[ti := (ps ! ti)\<lparr>thoughtSignature := thoughtSignature (ps ! si)\<rparr>])));
          standaloneSignatures =
            map (\<lambda>i. (i, orEmpty (thoughtSignature (ps ! i))))
              (filter (\<lambda>i. truthyStr (thoughtSignature (ps ! i)) \<and> \<not> thought (ps ! i)
                             \<and> functionCall (ps ! i) = None \<and> \<not> truthyStr (partText (ps ! i)))
                 [0..<length ps]);
          (ps, s) = mapAccum (assignSignature e standaloneSignatures) (0, cache) ps;
          sigIndex = fst s;
          ps = foldl (\<lambda>l i. removeAt (fst (standaloneSignatures ! i)) l) ps
                 (filter (\<lambda>i. i < sigIndex) (rev [0..<length standaloneSignatures]))
      in (ps, snd s))"

definition processThoughtsOf ::
  "env \<Rightarrow> signature_cache \<Rightarrow> content \<Rightarrow> content \<times> signature_cache" where
  "processThoughtsOf e cache c =
     (case parts c of
        None \<Rightarrow> (c, cache)
      | Some ps \<Rightarrow>
          if role c = Some ''model'' then
            let (ps', cache') = processModelThoughts e cache ps
            in (c\<lparr>parts := Some ps'\<rparr>, cache')
          else (c, cache))"

subsection \<open>Generation config\<close>

text \<open>
  Sampling parameters are passed through unread and are kept as their JSON text;
  \<open>a ?? b\<close> takes \<open>b\<close> when \<open>a\<close> is absent, \<open>a || b\<close> when \<open>a\<close> is absent or zero.
\<close>

record generation_config_in =
  maxOutputTokens :: "int option"
  max_tokens :: "int option"
  temperature :: "string option"
  topP :: "string option"
  top_p :: "string option"
  topK :: "string option"
  top_k :: "string option"
  stopSequences :: "string list option"
  thinkingBudget :: "int option"
  thinking_budget :: "int option"

datatype thinking_config =
    ClaudeThinking int
  | GeminiThinking int

record generation_config =
  gc_maxOutputTokens :: int
  gc_temperature :: string
  gc_topP :: string
  gc_topK :: string
  gc_stopSequences :: "string list option"
  gc_thinkingConfig :: "thinking_config option"

definition emptyConfig :: generation_config_in where
  "emptyConfig =
     \<lparr>maxOutputTokens = None, max_tokens = None, temperature = None, topP = None,
      top_p = None, topK = None, top_k = None, stopSequences = None,
      thinkingBudget = None, thinking_budget = None\<rparr>"

definition orElse :: "'a option \<Rightarrow> 'a \<Rightarrow> 'a" where
  "orElse a b = (case a of None \<Rightarrow> b | Some x \<Rightarrow> x)"

definition normalizeGenerationConfig ::
  "generation_config_in \<Rightarrow> bool \<Rightarrow> string \<Rightarrow> generation_config" where
  "normalizeGenerationConfig config enableThinking modelName =
     (let modelFamily = getModelFamily modelName;
          isGemini = (modelFamily = ''gemini'');
          maxOut = orPrevious (maxOutputTokens config) (orPrevious (max_tokens config) 32000);
          maxOut = (if isGemini \<and> maxOut > GEMINI_MAX_OUTPUT_TOKENS
                      then GEMINI_MAX_OUTPUT_TOKENS else maxOut);
          budget = orPrevious (thinkingBudget config)
                     (orPrevious (thinking_budget config) 16000)
      in \<lparr>gc_maxOutputTokens = maxOut,
          gc_temperature = orElse (temperature config) ''1'',
          gc_topP = (case topP config of Some x \<Rightarrow> x | None \<Rightarrow> orElse (top_p config) ''1''),
          gc_topK = (case topK config of Some x \<Rightarrow> x | None \<Rightarrow> orElse (top_k config) ''50''),
          gc_stopSequences = stopSequences config,
          gc_thinkingConfig =
            (if enableThinking then
               (if modelFamily = ''claude'' then Some (ClaudeThinking budget)
                else if isGemini then Some (GeminiThinking budget)
                else None)
             else None)\<rparr>)"

subsection \<open>The request\<close>

record function_calling_config =
  fcMode :: "string option"
  allowedFunctionNames :: "string list option"

record tool_config =
  functionCallingConfig :: "function_calling_config option"

datatype system_instruction =
    SystemString string
  | SystemObject "string option" "part list option"

record gemini_request =
  contents :: "content list option"
  tools :: "gemini_tool list option"
  toolConfig :: "tool_config option"
  systemInstruction :: "system_instruction option"
  generationConfig :: "generation_config_in option"
  safetySettings :: "string option"

record native_request =
  n_contents :: "content list option"
  n_tools :: "antigravity_tool list option"
  n_toolConfig :: "tool_config option"
  n_systemInstruction :: "system_instruction option"
  n_generationConfig :: generation_config
  n_sessionId :: string

record request_body =
  project :: string
  requestId :: string
  request :: native_request
  model :: string
  userAgent :: string

definition validatedToolConfig :: tool_config where
  "validatedToolConfig =
     \<lparr>functionCallingConfig = Some \<lparr>fcMode = Some ''VALIDATED'', allowedFunctionNames = None\<rparr>\<rparr>"

text \<open>\<open>toolConfig.functionCallingConfig.mode\<close> of a native request, when it is there.\<close>

definition toolConfigMode :: "native_request \<Rightarrow> string option" where
  "toolConfigMode r =
     (case n_toolConfig r of
        None \<Rightarrow> None
      | Some tc \<Rightarrow> (case functionCallingConfig tc of None \<Rightarrow> None | Some f \<Rightarrow> fcMode f))"

definition convertGeminiToGoogle ::
  "env \<Rightarrow> schema_helpers \<Rightarrow> gemini_request \<Rightarrow> string \<Rightarrow> string \<Rightarrow> caches
     \<Rightarrow> request_body \<times> caches" where
  "convertGeminiToGoogle e h geminiRequest modelName projectId cs =
     (let actualModelName = mapModelName modelName;
          enableThinking = isThinkingModel actualModelName;
          (reqContents, sigs) =
            (case contents geminiRequest of
               None \<Rightarrow> (None, signatureCache cs)
             | Some cl \<Rightarrow>
                 let cl = processFunctionCallIds e cl
                 in if enableThinking then
                      let (cl', sigs') = mapAccum (processThoughtsOf e) (signatureCache cs) cl
                      in (Some cl', sigs')
                    else (Some cl, signatureCache cs));
          sessionId = deriveSessionId_gemini e (case reqContents of Some cl \<Rightarrow> cl | None \<Rightarrow> []);
          genConfig = normalizeGenerationConfig
                        (case generationConfig geminiRequest of Some g \<Rightarrow> g | None \<Rightarrow> emptyConfig)
                        enableThinking actualModelName;
          (reqTools, names) =
            (case tools geminiRequest of
               None \<Rightarrow> (None, toolNameMap cs)
             | Some toolList \<Rightarrow>
                 let (converted, names') =
                       convertGeminiToolsToAntigravity e h (Some toolList) sessionId
                         actualModelName (toolNameMap cs)
                 in (Some converted, names'));
          reqToolConfig =
            (if (case reqTools of Some l \<Rightarrow> length l > 0 | None \<Rightarrow> False)
                \<and> toolConfig geminiRequest = None
               then Some validatedToolConfig
             else toolConfig geminiRequest);
          reqSystem =
            (case systemInstruction geminiRequest of
               None \<Rightarrow> None
             | Some (SystemString s) \<Rightarrow>
                 if s = [] then Some (SystemString s)
                 else Some (SystemObject None
                        (Some [\<lparr>thought = False, partText = Some s, functionCall = None,
                                functionResponse = None, thoughtSignature = None\<rparr>]))
             | Some (SystemObject r ps) \<Rightarrow>
                 if ps \<noteq> None then Some (SystemObject None ps)
                 else Some (SystemObject r ps))
      in (\<lparr>project = projectId,
           requestId = ''agent-'' @ requestUUID e,
           request = \<lparr>n_contents = reqContents, n_tools = reqTools,
                      n_toolConfig = reqToolConfig, n_systemInstruction = reqSystem,
                      n_generationConfig = genConfig, n_sessionId = sessionId\<rparr>,
           model = actualModelName,
           userAgent = ''antigravity''\<rparr>,
          \<lparr>toolNameMap = names, signatureCache = sigs\<rparr>))"

section \<open>A sample exchange\<close>

text \<open>
  Scenario (a) of the spec: an upstream body of two events, a thought part "ok " and a
  text part "hello" with finish reason STOP, cut into two chunks in the middle of a line
  and followed by an unterminated line. The sample environment parses the two payloads.
\<close>

definition sampleThought :: part where
  "sampleThought =
     \<lparr>thought = True, partText = Some ''ok '', functionCall = None,
      functionResponse = None, thoughtSignature = None\<rparr>"

definition sampleText :: part where
  "sampleText =
     \<lparr>thought = False, partText = Some ''hello'', functionCall = None,
      functionResponse = None, thoughtSignature = None\<rparr>"

definition samplePayload :: "part list \<Rightarrow> string option \<Rightarrow> sse_data" where
  "samplePayload ps fr =
     \<lparr>response =
        Some \<lparr>candidates =
                 Some [\<lparr>content = Some \<lparr>role = Some ''model'', parts = Some ps\<rparr>,
                        finishReason = fr\<rparr>],
               usageMetadata = None\<rparr>,
      own = \<lparr>candidates = None, usageMetadata = None\<rparr>\<rparr>"

definition sampleEnv :: env where
  "sampleEnv =
     \<lparr>now = 5000,
      sha256Hex = (\<lambda>s. replicate 64 (CHR ''0'')),
      randomHex = ''00'',
      randomUUID = ''00000000-0000-4000-8000-000000000000'',
      requestUUID = ''11111111-1111-4111-8111-111111111111'',
      freshIds = (\<lambda>n. ''call_'' @ replicate (Suc n) (CHR ''x'')),
      jsonParse =
        (\<lambda>s. if s = ''A'' then Some (samplePayload [sampleThought] None)
             else if s = ''B'' then Some (samplePayload [sampleText] (Some ''STOP''))
             else None)\<rparr>"

definition sampleBody :: "string list" where
  "sampleBody =
     [''data: A'' @ [CHR 0x0A, CHR 0x0A] @ ''da'', ''ta: B'' @ [CHR 0x0A] @ ''data: A'']"

definition noCaches :: caches where
  "noCaches = \<lparr>toolNameMap = [], signatureCache = Map.empty\<rparr>"

definition sampleSignature :: string where
  "sampleSignature = replicate 50 (CHR ''s'')"

text \<open>A function-call part with a 50-character signature, with and without a call id.\<close>

definition sampleCall :: part where
  "sampleCall =
     \<lparr>thought = False, partText = None,
      functionCall = Some \<lparr>callId = Some ''call_1'', callName = ''lookup'', callArgs = None\<rparr>,
      functionResponse = None, thoughtSignature = Some sampleSignature\<rparr>"

definition sampleCallNoId :: part where
  "sampleCallNoId =
     \<lparr>thought = False, partText = None,
      functionCall = Some \<lparr>callId = None, callName = ''lookup'', callArgs = None\<rparr>,
      functionResponse = None, thoughtSignature = Some sampleSignature\<rparr>"

text \<open>A Gemini request with one tool and a tool config of its own.\<close>

definition sampleHelpers :: schema_helpers where
  "sampleHelpers = \<lparr>sanitizeSchema = (\<lambda>s. Some s), cleanSchemaForGemini = (\<lambda>s. s)\<rparr>"

definition sampleTool :: gemini_tool where
  "sampleTool =
     \<lparr>functionDeclarations =
        Some [\<lparr>declName = Some ''lookup'', declDescription = None, declParameters = None\<rparr>],
      toolName = None, toolDescription = None, toolParameters = None,
      toolInputSchema = None\<rparr>"

definition sampleGeminiRequest :: "tool_config option \<Rightarrow> gemini_request" where
  "sampleGeminiRequest tc =
     \<lparr>contents = Some [\<lparr>role = Some ''user'', parts = Some [sampleText]\<rparr>],
      tools = Some [sampleTool],
      toolConfig = tc,
      systemInstruction = None,
      generationConfig = None,
      safetySettings = None\<rparr>"

definition autoToolConfig :: tool_config where
  "autoToolConfig =
     \<lparr>functionCallingConfig = Some \<lparr>fcMode = Some ''AUTO'', allowedFunctionNames = None\<rparr>\<rparr>"

definition userMessage :: "string \<Rightarrow> openai_message" where
  "userMessage t = \<lparr>msgRole = Some ''user'', msgContent = ContentString t\<rparr>"

text \<open>
  The same two events in a body whose last \<open>data:\<close> line has no line feed after it.
\<close>

definition sampleUnterminatedBody :: "string list" where
  "sampleUnterminatedBody = [''data: A'' @ [CHR 0x0A, CHR 0x0A] @ ''data: B'']"

section \<open>Properties of the string helpers\<close>

lemma startsWith_iff: "startsWith s p \<longleftrightarrow> (\<exists>ss. s = p @ ss)"
  unfolding startsWith_def
  by (metis append_eq_conv_conj append_take_drop_id)

lemma strIncludes_iff: "strIncludes s p \<longleftrightarrow> (\<exists>ps ss. s = ps @ p @ ss)"
proof (induction s)
  case Nil
  show ?case by auto
next
  case (Cons c cs)
  show ?case
  proof
    assume "strIncludes (c # cs) p"
    then consider "startsWith (c # cs) p" | "strIncludes cs p" by auto
    then show "\<exists>ps ss. c # cs = ps @ p @ ss"
    proof cases
      case 1
      then obtain ss where "c # cs = p @ ss" unfolding startsWith_iff ..
      then have "c # cs = [] @ p @ ss" by simp
      then show ?thesis by blast
    next
      case 2
      with Cons.IH obtain ps ss where "cs = ps @ p @ ss" by blast
      then have "c # cs = (c # ps) @ p @ ss" by simp
      then show ?thesis by blast
    qed
  next
    assume "\<exists>ps ss. c # cs = ps @ p @ ss"
    then obtain ps ss where e: "c # cs = ps @ p @ ss" by blast
    show "strIncludes (c # cs) p"
    proof (cases ps)
      case Nil
      with e have "startsWith (c # cs) p" unfolding startsWith_iff by auto
      then show ?thesis by simp
    next
      case (Cons a as)
      with e have "cs = as @ p @ ss" by simp
      with Cons.IH have "strIncludes cs p" by blast
      then show ?thesis by simp
    qed
  qed
qed

lemma strIncludes_append_left: "strIncludes a p \<Longrightarrow> strIncludes (a @ b) p"
  unfolding strIncludes_iff by (metis append.assoc)

text \<open>
  An occurrence of a pattern in \<open>a @ b\<close> lies inside \<open>a\<close> when the pattern's last
  character does not occur in \<open>b\<close>.
\<close>

lemma strIncludes_cut:
  assumes inc: "strIncludes (a @ b) p" and ne: "p \<noteq> []" and out: "last p \<notin> set b"
  shows "strIncludes a p"
proof -
  from inc obtain ps ss where e: "a @ b = (ps @ p) @ ss"
    unfolding strIncludes_iff by auto
  then obtain us where "(a = (ps @ p) @ us \<and> us @ b = ss) \<or> (a @ us = ps @ p \<and> b = us @ ss)"
    unfolding append_eq_append_conv2 by blast
  then show ?thesis
  proof
    assume "a = (ps @ p) @ us \<and> us @ b = ss"
    then have "a = ps @ p @ us" by simp
    then show ?thesis unfolding strIncludes_iff by blast
  next
    assume h: "a @ us = ps @ p \<and> b = us @ ss"
    show ?thesis
    proof (cases "us = []")
      case True
      with h have "a = ps @ p @ []" by simp
      then show ?thesis unfolding strIncludes_iff by blast
    next
      case False
      from h have "last (a @ us) = last (ps @ p)" by simp
      with False ne have "last us = last p" by simp
      moreover from False have "last us \<in> set us" by simp
      ultimately have "last p \<in> set b" using h by simp
      with out show ?thesis by contradiction
    qed
  qed
qed

section \<open>Model-name mapping\<close>

lemma date_suffix_chars:
  assumes "matchesDateSuffix n"
  shows "set (drop (length n - 9) n) \<subseteq> {c. c = CHR ''-'' \<or> isDigit c}"
proof -
  let ?t = "drop (length n - 9) n"
  from assms have a: "take 1 ?t = ''-''" and b: "list_all isDigit (drop 1 ?t)"
    by (simp_all add: matchesDateSuffix_def Let_def)
  have "?t = take 1 ?t @ drop 1 ?t" by (rule append_take_drop_id [symmetric])
  then have "set ?t = set (take 1 ?t) \<union> set (drop 1 ?t)" by (metis set_append)
  with a b show "set ?t \<subseteq> {c. c = CHR ''-'' \<or> isDigit c}"
    by (auto simp: list_all_iff)
qed

lemma toLowerChar_keep: "c = CHR ''-'' \<or> isDigit c \<Longrightarrow> toLowerChar c = c"
  by (auto simp: toLowerChar_def isUpper_def isDigit_def)

lemma u_not_date: "c = CHR ''-'' \<or> isDigit c \<Longrightarrow> c \<noteq> CHR ''u''"
  by (auto simp: isDigit_def)

text \<open>Removing a date suffix neither creates nor destroys an occurrence of "haiku".\<close>

lemma haiku_date_suffix:
  assumes "matchesDateSuffix n"
  shows "strIncludes (toLowerCase n) ''haiku'' \<longleftrightarrow>
         strIncludes (toLowerCase (take (length n - 9) n)) ''haiku''"
proof -
  let ?a = "take (length n - 9) n" and ?b = "drop (length n - 9) n"
  have split: "toLowerCase n = toLowerCase ?a @ toLowerCase ?b"
    unfolding toLowerCase_def by (metis append_take_drop_id map_append)
  have "CHR ''u'' \<notin> set (toLowerCase ?b)"
  proof
    assume "CHR ''u'' \<in> set (toLowerCase ?b)"
    then obtain c where c: "c \<in> set ?b" and u: "toLowerChar c = CHR ''u''"
      unfolding toLowerCase_def by auto
    from c date_suffix_chars [OF assms] have k: "c = CHR ''-'' \<or> isDigit c" by blast
    with u toLowerChar_keep have "c = CHR ''u''" by simp
    with k u_not_date show False by blast
  qed
  then have out: "last ''haiku'' \<notin> set (toLowerCase ?b)" by simp
  show ?thesis
  proof
    assume "strIncludes (toLowerCase n) ''haiku''"
    with split have "strIncludes (toLowerCase ?a @ toLowerCase ?b) ''haiku''" by simp
    from strIncludes_cut [OF this _ out] show "strIncludes (toLowerCase ?a) ''haiku''" by simp
  next
    assume "strIncludes (toLowerCase ?a) ''haiku''"
    then show "strIncludes (toLowerCase n) ''haiku''"
      unfolding split by (rule strIncludes_append_left)
  qed
qed

lemma mapModelName_haiku:
  assumes "strIncludes (toLowerCase n) ''haiku''"
  shows "mapModelName n = ''gemini-2.5-flash-lite''"
proof -
  have "n \<noteq> []" using assms by (auto simp: toLowerCase_def)
  with assms show ?thesis
    by (simp add: mapModelName_def MODEL_REDIRECTS_def Let_def)
qed

lemma mapModelName_no_haiku:
  assumes "\<not> strIncludes (toLowerCase n) ''haiku''"
  shows "mapModelName n = removeDateSuffix n"
  using assms
  by (simp add: mapModelName_def MODEL_REDIRECTS_def Let_def removeDateSuffix_def
      matchesDateSuffix_def)

text \<open>
  Claim C4. For every model name \<open>n\<close> given to \<open>mapModelName\<close>: if \<open>n\<close> contains "haiku"
  (in any letter case) the result is exactly "gemini-2.5-flash-lite"; if \<open>n\<close> ends in a
  hyphen and eight digits, the name that is used is \<open>n\<close> without these nine characters
  (redirected in turn when it contains "haiku", the redirect being checked first in the
  code); so a dated name without "haiku" is returned with its date suffix removed.
\<close>

theorem mapModelName_date_and_haiku:
  "(strIncludes (toLowerCase n) ''haiku'' \<longrightarrow> mapModelName n = ''gemini-2.5-flash-lite'') \<and>
   (matchesDateSuffix n \<longrightarrow> mapModelName n = redirectHaiku (take (length n - 9) n)) \<and>
   (matchesDateSuffix n \<and> \<not> strIncludes (toLowerCase n) ''haiku'' \<longrightarrow>
      mapModelName n = take (length n - 9) n)"
proof (intro conjI impI)
  assume "strIncludes (toLowerCase n) ''haiku''"
  then show "mapModelName n = ''gemini-2.5-flash-lite''" by (rule mapModelName_haiku)
next
  assume d: "matchesDateSuffix n"
  show "mapModelName n = redirectHaiku (take (length n - 9) n)"
  proof (cases "strIncludes (toLowerCase n) ''haiku''")
    case True
    then have "mapModelName n = ''gemini-2.5-flash-lite''" by (rule mapModelName_haiku)
    moreover from True haiku_date_suffix [OF d]
    have "redirectHaiku (take (length n - 9) n) = ''gemini-2.5-flash-lite''"
      by (simp add: redirectHaiku_def)
    ultimately show ?thesis by simp
  next
    case False
    then have "mapModelName n = removeDateSuffix n" by (rule mapModelName_no_haiku)
    moreover from False haiku_date_suffix [OF d]
    have "redirectHaiku (take (length n - 9) n) = take (length n - 9) n"
      by (simp add: redirectHaiku_def)
    ultimately show ?thesis using d by (simp add: removeDateSuffix_def)
  qed
next
  assume "matchesDateSuffix n \<and> \<not> strIncludes (toLowerCase n) ''haiku''"
  then show "mapModelName n = take (length n - 9) n"
    using mapModelName_no_haiku [of n] by (simp add: removeDateSuffix_def)
qed

theorem mapModelName_date_and_haiku_witness:
  "mapModelName ''claude-sonnet-4-5-20250929'' = ''claude-sonnet-4-5'' \<and>
   mapModelName ''claude-3-5-haiku-20241022'' = ''gemini-2.5-flash-lite''"
proof -
  have d: "matchesDateSuffix ''claude-sonnet-4-5-20250929''" by code_simp
  have nh: "\<not> strIncludes (toLowerCase ''claude-sonnet-4-5-20250929'') ''haiku''" by code_simp
  have h: "strIncludes (toLowerCase ''claude-3-5-haiku-20241022'') ''haiku''" by code_simp
  have t: "take (length ''claude-sonnet-4-5-20250929'' - 9) ''claude-sonnet-4-5-20250929''
     = ''claude-sonnet-4-5''" by simp
  from mapModelName_date_and_haiku [of "''claude-sonnet-4-5-20250929''"] d nh
  have "mapModelName ''claude-sonnet-4-5-20250929'' =
     take (length ''claude-sonnet-4-5-20250929'' - 9) ''claude-sonnet-4-5-20250929''" by blast
  then have a: "mapModelName ''claude-sonnet-4-5-20250929'' = ''claude-sonnet-4-5''"
    unfolding t .
  from mapModelName_date_and_haiku [of "''claude-3-5-haiku-20241022''"] h
  have b: "mapModelName ''claude-3-5-haiku-20241022'' = ''gemini-2.5-flash-lite''" by blast
  from a b show ?thesis ..
qed

section \<open>Tool-name sanitisation\<close>

lemma replaceEdge_False:
  "replaceEdgeUnderscores False s = rev (dropWhile (\<lambda>x. x = CHR ''_'') (rev s))"
proof (induction s)
  case Nil
  show ?case by simp
next
  case (Cons c cs)
  show ?case
  proof (cases "list_all (\<lambda>x. x = CHR ''_'') (c # cs)")
    case True
    then have "dropWhile (\<lambda>x. x = CHR ''_'') (rev (c # cs)) = []"
      by (simp add: list_all_iff)
    with True show ?thesis by simp
  next
    case False
    then have step: "replaceEdgeUnderscores False (c # cs) = c # replaceEdgeUnderscores False cs"
      by simp
    from False have "dropWhile (\<lambda>x. x = CHR ''_'') (rev cs @ [c])
        = dropWhile (\<lambda>x. x = CHR ''_'') (rev cs) @ [c]"
      by (auto simp: dropWhile_append list_all_iff)
    with step Cons.IH show ?thesis by simp
  qed
qed

lemma replaceEdge_True:
  "replaceEdgeUnderscores True s = replaceEdgeUnderscores False (dropWhile (\<lambda>x. x = CHR ''_'') s)"
  by (cases s) simp_all

lemma replaceEdge_trim: "replaceEdgeUnderscores True s = trimUnderscores s"
  by (simp add: replaceEdge_True replaceEdge_False trimUnderscores_def)

lemma cap_take: "(if length x > n then take n x else x) = take n x"
  by simp

lemma replaceUnsafe_Nil: "replaceUnsafe [] = []"
  by (simp add: replaceUnsafe_def)

lemma trimUnderscores_Nil: "trimUnderscores [] = []"
  by (simp add: trimUnderscores_def)

lemma sanitizeToolName_string:
  "sanitizeToolName (JString n) = sanitize_tool_name_spec n"
proof (cases "n = []")
  case True
  have "sanitizeToolName (JString []) = ''tool''"
    by (simp add: sanitizeToolName_def)
  moreover have "sanitize_tool_name_spec [] = ''tool''"
    by (simp add: sanitize_tool_name_spec_def replaceUnsafe_Nil trimUnderscores_Nil)
  ultimately show ?thesis using True by simp
next
  case False
  then have "sanitizeToolName (JString n) =
      (let cleaned = replaceEdgeUnderscores True (replaceUnsafe n);
           cleaned = (if cleaned = [] then ''tool'' else cleaned)
       in (if length cleaned > 128 then take 128 cleaned else cleaned))"
    by (simp add: sanitizeToolName_def)
  also have "\<dots> = sanitize_tool_name_spec n"
    unfolding Let_def cap_take replaceEdge_trim sanitize_tool_name_spec_def ..
  finally show ?thesis .
qed

lemma set_trimUnderscores: "set (trimUnderscores s) \<subseteq> set s"
proof -
  have "set (dropWhile (\<lambda>x. x = CHR ''_'') (rev (dropWhile (\<lambda>x. x = CHR ''_'') s)))
          \<subseteq> set (rev (dropWhile (\<lambda>x. x = CHR ''_'') s))"
    by (meson set_dropWhileD subsetI)
  also have "\<dots> \<subseteq> set s"
    using set_dropWhileD by fastforce
  finally show ?thesis by (simp add: trimUnderscores_def)
qed

lemma safe_replaceUnsafe: "c \<in> set (replaceUnsafe s) \<Longrightarrow> isSafeChar c"
  by (auto simp: replaceUnsafe_def isSafeChar_def)

lemma safe_tool: "c \<in> set ''tool'' \<Longrightarrow> isSafeChar c"
  by (auto simp: isSafeChar_def isLower_def)

lemma spec_safe:
  assumes a: "c \<in> set (sanitize_tool_name_spec n)"
  shows "isSafeChar c"
proof (cases "trimUnderscores (replaceUnsafe n) = []")
  case True
  with a have "c \<in> set ''tool''" by (simp add: sanitize_tool_name_spec_def)
  then show ?thesis by (rule safe_tool)
next
  case False
  with a have "c \<in> set (take 128 (trimUnderscores (replaceUnsafe n)))"
    by (simp add: sanitize_tool_name_spec_def)
  then have "c \<in> set (trimUnderscores (replaceUnsafe n))" by (rule in_set_takeD)
  then have "c \<in> set (replaceUnsafe n)" using set_trimUnderscores by blast
  then show ?thesis by (rule safe_replaceUnsafe)
qed

lemma spec_nonempty: "sanitize_tool_name_spec n \<noteq> []"
  by (simp add: sanitize_tool_name_spec_def)

lemma spec_length: "length (sanitize_tool_name_spec n) \<le> 128"
  by (simp add: sanitize_tool_name_spec_def)

lemma sanitize_cases:
  "sanitizeToolName v = ''tool'' \<or> (\<exists>n. sanitizeToolName v = sanitize_tool_name_spec n)"
proof (cases v)
  case (JString s)
  then show ?thesis using sanitizeToolName_string [of s] by blast
qed (simp_all add: sanitizeToolName_def)

lemma sanitizeToolName_props:
  "sanitizeToolName v \<noteq> [] \<and> length (sanitizeToolName v) \<le> 128
     \<and> list_all isSafeChar (sanitizeToolName v)"
proof -
  have tool: "''tool'' \<noteq> [] \<and> length ''tool'' \<le> 128 \<and> list_all isSafeChar ''tool''"
    using safe_tool by (simp add: list_all_iff)
  have spec: "sanitize_tool_name_spec n \<noteq> [] \<and> length (sanitize_tool_name_spec n) \<le> 128
      \<and> list_all isSafeChar (sanitize_tool_name_spec n)" for n
    using spec_nonempty [of n] spec_length [of n] spec_safe [of _ n]
    by (simp add: list_all_iff)
  from sanitize_cases [of v] show ?thesis
  proof
    assume "sanitizeToolName v = ''tool''"
    with tool show ?thesis by simp
  next
    assume "\<exists>n. sanitizeToolName v = sanitize_tool_name_spec n"
    then obtain n where "sanitizeToolName v = sanitize_tool_name_spec n" ..
    with spec [of n] show ?thesis by simp
  qed
qed

text \<open>
  Claim C5. For every tool name string \<open>n\<close>, \<open>sanitizeToolName\<close> computes the reference
  definition: every character outside \<open>[A-Za-z0-9_-]\<close> replaced by an underscore, leading
  and trailing underscores trimmed, "tool" if nothing is left, and the result cut to at
  most 128 characters.
\<close>

theorem sanitizeToolName_refines_spec:
  "sanitizeToolName (JString n) = sanitize_tool_name_spec n"
  by (rule sanitizeToolName_string)

theorem sanitizeToolName_refines_spec_witness:
  "sanitizeToolName (JString ''my.tool!'') = ''my_tool''"
proof -
  have "sanitize_tool_name_spec ''my.tool!'' = ''my_tool''" by code_simp
  with sanitizeToolName_refines_spec [of "''my.tool!''"] show ?thesis by (rule trans)
qed

text \<open>
  Claim C9. For every input value, a string or not (\<open>null\<close>, \<open>undefined\<close>, a number, a
  boolean, an object), \<open>sanitizeToolName\<close> returns a non-empty string of at most 128
  characters, all of them in \<open>[A-Za-z0-9_-]\<close>. The function has no failing branch.
\<close>

theorem sanitizeToolName_safe:
  "sanitizeToolName v \<noteq> [] \<and> length (sanitizeToolName v) \<le> 128
     \<and> list_all isSafeChar (sanitizeToolName v)"
  by (rule sanitizeToolName_props)

theorem sanitizeToolName_safe_witness:
  "sanitizeToolName JNull \<noteq> [] \<and> length (sanitizeToolName JNull) \<le> 128
     \<and> list_all isSafeChar (sanitizeToolName JNull)"
  by (rule sanitizeToolName_safe [of JNull])

section \<open>Finish reasons\<close>

text \<open>
  Claim C8. The OpenAI finish-reason mapping sends STOP to "stop", MAX_TOKENS to "length",
  TOOL_USE and FUNCTION_CALL to "tool_calls", and SAFETY to "content_filter".
\<close>

theorem mapFinishReason_table:
  "mapFinishReason (Some ''STOP'') = ''stop'' \<and>
   mapFinishReason (Some ''MAX_TOKENS'') = ''length'' \<and>
   mapFinishReason (Some ''TOOL_USE'') = ''tool_calls'' \<and>
   mapFinishReason (Some ''FUNCTION_CALL'') = ''tool_calls'' \<and>
   mapFinishReason (Some ''SAFETY'') = ''content_filter''"
  by (simp add: mapFinishReason_def)

section \<open>Tool-name cache\<close>


lemma pruneLoop_drop:
  "removed < removeCount \<Longrightarrow> pruneLoop removeCount removed m = drop (removeCount - removed) m"
proof (induction m arbitrary: removed)
  case Nil
  show ?case by simp
next
  case (Cons x xs)
  show ?case
  proof (cases "Suc removed \<ge> removeCount")
    case True
    with Cons.prems have "removeCount - removed = Suc 0" by simp
    with True show ?thesis by simp
  next
    case False
    then have lt: "Suc removed < removeCount" by simp
    then have "removeCount - removed = Suc (removeCount - Suc removed)" by simp
    with False Cons.IH [OF lt] show ?thesis by simp
  qed
qed

lemma pruneSize_drop: "pruneSize n m = drop (length m - n) m"
  by (simp add: pruneSize_def pruneLoop_drop)

lemma update_absent: "k \<notin> fst ` set m \<Longrightarrow> AList.update k v m = m @ [(k, v)]"
  by (induction m) auto

lemma length_update:
  "length (AList.update k v m) = (if k \<in> fst ` set m then length m else Suc (length m))"
  by (induction m) auto

lemma map_of_tl_distinct:
  assumes "distinct (map fst m)"
  shows "map_of (tl m) k = (if m \<noteq> [] \<and> k = fst (hd m) then None else map_of m k)"
proof (cases m)
  case Nil
  then show ?thesis by simp
next
  case (Cons x xs)
  with assms have "fst x \<notin> fst ` set xs" by simp
  then have "map_of xs (fst x) = None" by (simp add: map_of_eq_None_iff)
  with Cons show ?thesis by (cases x) auto
qed

text \<open>What a store does to the lookup table of a well-formed cache.\<close>

lemma map_of_store:
  assumes ok: "toolNameMap_ok m"
  shows "map_of (pruneSize MAX_ENTRIES (AList.update k v m)) k = Some v"
    and "k' \<noteq> k \<Longrightarrow>
         map_of (pruneSize MAX_ENTRIES (AList.update k v m)) k' = map_of m k' \<or>
         map_of (pruneSize MAX_ENTRIES (AList.update k v m)) k' = None"
    and "k' \<noteq> k \<Longrightarrow> length m < MAX_ENTRIES \<Longrightarrow>
         map_of (pruneSize MAX_ENTRIES (AList.update k v m)) k' = map_of m k'"
proof -
  from ok have d: "distinct (map fst m)" and len: "length m \<le> MAX_ENTRIES"
    by (simp_all add: toolNameMap_ok_def)
  let ?u = "AList.update k v m"
  have du: "distinct (map fst ?u)" using d by (rule AList.distinct_update)
  have lu: "length ?u = (if k \<in> fst ` set m then length m else Suc (length m))"
    by (rule length_update)
  have mu: "map_of ?u = (map_of m)(k \<mapsto> v)" by (rule AList.update_conv')
  consider (keep) "length ?u \<le> MAX_ENTRIES"
    | (drop1) "length ?u = Suc MAX_ENTRIES" "k \<notin> fst ` set m" "length m = MAX_ENTRIES"
    using lu len by (cases "length m = MAX_ENTRIES") (auto split: if_splits)
  then have main: "map_of (pruneSize MAX_ENTRIES ?u) k = Some v \<and>
      (\<forall>k'. k' \<noteq> k \<longrightarrow> map_of (pruneSize MAX_ENTRIES ?u) k' = map_of m k' \<or>
         map_of (pruneSize MAX_ENTRIES ?u) k' = None) \<and>
      (length m < MAX_ENTRIES \<longrightarrow>
         (\<forall>k'. k' \<noteq> k \<longrightarrow> map_of (pruneSize MAX_ENTRIES ?u) k' = map_of m k'))"
  proof cases
    case keep
    then have "pruneSize MAX_ENTRIES ?u = ?u" by (simp add: pruneSize_drop)
    then show ?thesis by (simp add: mu)
  next
    case drop1
    then have p: "pruneSize MAX_ENTRIES ?u = tl ?u"
      by (simp add: pruneSize_drop drop_Suc)
    from drop1 have ne: "m \<noteq> []" by (auto simp: MAX_ENTRIES_def)
    from drop1 have u: "?u = m @ [(k, v)]" by (simp add: update_absent)
    with ne have hd: "fst (hd ?u) = fst (hd m)" by simp
    from ne have "fst (hd m) \<in> fst ` set m" by (cases m) auto
    with drop1 have hk: "fst (hd m) \<noteq> k" by auto
    have t: "map_of (tl ?u) x = (if x = fst (hd m) then None else map_of ?u x)" for x
      using map_of_tl_distinct [OF du, of x] ne u hd by auto
    have "length m < MAX_ENTRIES \<longrightarrow> False" using drop1 by simp
    then show ?thesis
      unfolding p using hk by (auto simp: t mu)
  qed
  from main show "map_of (pruneSize MAX_ENTRIES (AList.update k v m)) k = Some v"
    by (rule conjunct1)
  from main have m2: "\<forall>k'. k' \<noteq> k \<longrightarrow> map_of (pruneSize MAX_ENTRIES ?u) k' = map_of m k' \<or>
         map_of (pruneSize MAX_ENTRIES ?u) k' = None"
    by (elim conjE)
  from main have m3: "length m < MAX_ENTRIES \<longrightarrow>
         (\<forall>k'. k' \<noteq> k \<longrightarrow> map_of (pruneSize MAX_ENTRIES ?u) k' = map_of m k')"
    by (elim conjE)
  show "k' \<noteq> k \<Longrightarrow>
         map_of (pruneSize MAX_ENTRIES (AList.update k v m)) k' = map_of m k' \<or>
         map_of (pruneSize MAX_ENTRIES (AList.update k v m)) k' = None"
    using m2 [rule_format, of k'] .
  show "k' \<noteq> k \<Longrightarrow> length m < MAX_ENTRIES \<Longrightarrow>
         map_of (pruneSize MAX_ENTRIES (AList.update k v m)) k' = map_of m k'"
    using m3 [rule_format, of k'] .
qed

text \<open>Keys of colon-free session ids and colon-free safe names are told apart.\<close>

lemma prefix_noColon:
  assumes "noColon s" "noColon s'" "s @ CHR '':'' # r = s' @ CHR '':'' # r'"
  shows "s = s' \<and> r = r'"
proof -
  have "takeWhile (\<lambda>c. c \<noteq> CHR '':'') (s @ CHR '':'' # r) = s"
    using assms(1) by (auto simp: noColon_def takeWhile_append)
  moreover have "takeWhile (\<lambda>c. c \<noteq> CHR '':'') (s' @ CHR '':'' # r') = s'"
    using assms(2) by (auto simp: noColon_def takeWhile_append)
  ultimately have "s = s'" using assms(3) by simp
  with assms(3) show ?thesis by simp
qed

lemma makeKey_inj:
  assumes "noColon s" "noColon s'" "noColon k" "noColon k'"
    and eq: "makeKey s m k = makeKey s' m' k'"
  shows "s = s' \<and> m = m' \<and> k = k'"
proof -
  from eq have e1: "s @ CHR '':'' # (CHR '':'' # m @ ''::'' @ k) = s' @ CHR '':'' # (CHR '':'' # m' @ ''::'' @ k')"
    by (simp add: makeKey_def)
  from prefix_noColon [OF assms(1,2) e1] have s: "s = s'" and e2: "m @ ''::'' @ k = m' @ ''::'' @ k'"
    by simp_all
  from e2 have "rev (m @ ''::'' @ k) = rev (m' @ ''::'' @ k')" by simp
  then have e3: "rev k @ CHR '':'' # (CHR '':'' # rev m) = rev k' @ CHR '':'' # (CHR '':'' # rev m')"
    by simp
  have "noColon (rev k)" "noColon (rev k')" using assms(3,4) by (simp_all add: noColon_def)
  from prefix_noColon [OF this e3] have "k = k'" "m = m'" by simp_all
  with s show ?thesis by simp
qed

lemma colon_unsafe: "\<not> isSafeChar (CHR '':'')"
  by (simp add: isSafeChar_def isLower_def isUpper_def isDigit_def)

lemma noColon_sanitize: "noColon (sanitizeToolName v)"
proof -
  have "list_all isSafeChar (sanitizeToolName v)" using sanitizeToolName_props [of v] by simp
  with colon_unsafe show ?thesis unfolding noColon_def list_all_iff by blast
qed

lemma lookup_result:
  "fst (getOriginalToolName t s m k c) =
     (if k = [] then None
      else (case map_of c (makeKey s m k) of
              None \<Rightarrow> None
            | Some entry \<Rightarrow>
                if t - ts entry > ENTRY_TTL_MS then None
                else if originalName entry = [] then None else Some (originalName entry)))"
  by (simp add: getOriginalToolName_def Let_def split: option.split)

lemma store_changed:
  assumes "k \<noteq> []" "n \<noteq> []" "k \<noteq> n"
  shows "setToolNameMapping t s m k n c =
           pruneSize MAX_ENTRIES (AList.update (makeKey s m k) \<lparr>originalName = n, ts = t\<rparr> c)"
  using assms by (simp add: setToolNameMapping_def Let_def)

lemma store_unchanged: "setToolNameMapping t s m n n c = c"
  by (simp add: setToolNameMapping_def)

text \<open>The invariant holds of the empty cache and every operation keeps it.\<close>

lemma toolNameMap_ok_empty: "toolNameMap_ok []"
  by (simp add: toolNameMap_ok_def)

lemma toolNameMap_ok_prune:
  assumes "distinct (map fst m)"
  shows "toolNameMap_ok (pruneSize MAX_ENTRIES m)"
proof -
  have "map fst (drop (length m - MAX_ENTRIES) m) = drop (length m - MAX_ENTRIES) (map fst m)"
    by (rule drop_map [symmetric])
  with assms have "distinct (map fst (drop (length m - MAX_ENTRIES) m))"
    by (simp add: distinct_drop)
  then show ?thesis by (simp add: toolNameMap_ok_def pruneSize_drop)
qed

lemma toolNameMap_ok_set:
  assumes "toolNameMap_ok m"
  shows "toolNameMap_ok (setToolNameMapping t s mdl k n m)"
proof (cases "k = [] \<or> n = [] \<or> k = n")
  case True
  with assms show ?thesis by (auto simp: setToolNameMapping_def)
next
  case False
  from assms have "distinct (map fst m)" by (simp add: toolNameMap_ok_def)
  then have "distinct (map fst (AList.update (makeKey s mdl k) \<lparr>originalName = n, ts = t\<rparr> m))"
    by (rule AList.distinct_update)
  then have "toolNameMap_ok (pruneSize MAX_ENTRIES
      (AList.update (makeKey s mdl k) \<lparr>originalName = n, ts = t\<rparr> m))"
    by (rule toolNameMap_ok_prune)
  with False show ?thesis by (simp add: store_changed)
qed

lemma toolNameMap_ok_delete:
  assumes "toolNameMap_ok m"
  shows "toolNameMap_ok (AList.delete k m)"
proof -
  from assms have "distinct (map fst (AList.delete k m))"
    by (simp add: toolNameMap_ok_def AList.distinct_delete)
  moreover have "length (AList.delete k m) \<le> length m" by (rule AList.length_delete_le)
  ultimately show ?thesis using assms by (simp add: toolNameMap_ok_def)
qed

lemma toolNameMap_ok_get:
  assumes "toolNameMap_ok m"
  shows "toolNameMap_ok (snd (getOriginalToolName t s mdl k m))"
  using assms toolNameMap_ok_delete [OF assms]
  by (simp add: getOriginalToolName_def Let_def split: option.split)

lemma toolNameMap_ok_expire:
  assumes "toolNameMap_ok m"
  shows "toolNameMap_ok (pruneExpired t m)"
proof -
  from assms have "distinct (map fst (pruneExpired t m))"
    by (simp add: toolNameMap_ok_def pruneExpired_def distinct_map_filter)
  moreover have "length (pruneExpired t m) \<le> length m"
    by (simp add: pruneExpired_def)
  ultimately show ?thesis using assms by (simp add: toolNameMap_ok_def)
qed


text \<open>
  Claim C2, as the code has it. In a cache that satisfies its invariant, for every session
  id \<open>s\<close>, model \<open>m\<close> and original tool name \<open>n\<close>: when \<open>n\<close> is not empty and its
  sanitized form differs from it, the lookup of the sanitized name after the store, within
  the 30-minute TTL, returns \<open>n\<close>; when \<open>n\<close> is already safe the store changes nothing.
  For session ids without a colon (all derived ids are such) and any other session or
  model, the lookup of the same safe name after the store is what it was before or
  \<open>null\<close> (the store may evict), and is what it was before while the cache is not full.
\<close>

theorem tool_name_round_trip:
  assumes ok: "toolNameMap_ok c"
  shows "(n \<noteq> [] \<and> sanitizeToolName (JString n) \<noteq> n \<and> t' - t \<le> ENTRY_TTL_MS \<longrightarrow>
            fst (getOriginalToolName t' s m (sanitizeToolName (JString n))
                  (setToolNameMapping t s m (sanitizeToolName (JString n)) n c)) = Some n) \<and>
         (sanitizeToolName (JString n) = n \<longrightarrow>
            setToolNameMapping t s m (sanitizeToolName (JString n)) n c = c) \<and>
         (noColon s \<and> noColon s' \<and> (s', m') \<noteq> (s, m) \<longrightarrow>
            (fst (getOriginalToolName t' s' m' (sanitizeToolName (JString n))
                   (setToolNameMapping t s m (sanitizeToolName (JString n)) n c))
               = fst (getOriginalToolName t' s' m' (sanitizeToolName (JString n)) c) \<or>
             fst (getOriginalToolName t' s' m' (sanitizeToolName (JString n))
                   (setToolNameMapping t s m (sanitizeToolName (JString n)) n c)) = None) \<and>
            (length c < MAX_ENTRIES \<longrightarrow>
               fst (getOriginalToolName t' s' m' (sanitizeToolName (JString n))
                     (setToolNameMapping t s m (sanitizeToolName (JString n)) n c))
                 = fst (getOriginalToolName t' s' m' (sanitizeToolName (JString n)) c)))"
proof -
  let ?k = "sanitizeToolName (JString n)"
  have kne: "?k \<noteq> []" using sanitizeToolName_props [of "JString n"] by simp
  have knc: "noColon ?k" by (rule noColon_sanitize)
  let ?e = "\<lparr>originalName = n, ts = t\<rparr>"
  have round: "fst (getOriginalToolName t' s m ?k (setToolNameMapping t s m ?k n c)) = Some n"
    if "n \<noteq> []" "?k \<noteq> n" "t' - t \<le> ENTRY_TTL_MS"
  proof -
    from that kne have st: "setToolNameMapping t s m ?k n c =
        pruneSize MAX_ENTRIES (AList.update (makeKey s m ?k) ?e c)"
      by (simp add: store_changed)
    have "map_of (setToolNameMapping t s m ?k n c) (makeKey s m ?k) = Some ?e"
      unfolding st by (rule map_of_store(1) [OF ok])
    with that kne show ?thesis by (simp add: lookup_result)
  qed
  have same: "setToolNameMapping t s m ?k n c = c" if "?k = n"
    using that store_unchanged [of t s m n c] by simp
  have iso: "(fst (getOriginalToolName t' s' m' ?k (setToolNameMapping t s m ?k n c))
               = fst (getOriginalToolName t' s' m' ?k c) \<or>
             fst (getOriginalToolName t' s' m' ?k (setToolNameMapping t s m ?k n c)) = None) \<and>
            (length c < MAX_ENTRIES \<longrightarrow>
               fst (getOriginalToolName t' s' m' ?k (setToolNameMapping t s m ?k n c))
                 = fst (getOriginalToolName t' s' m' ?k c))"
    if nc: "noColon s" "noColon s'" and diff: "(s', m') \<noteq> (s, m)"
  proof (cases "n = [] \<or> ?k = n")
    case True
    then have "setToolNameMapping t s m ?k n c = c"
      by (auto simp: setToolNameMapping_def)
    then show ?thesis by simp
  next
    case False
    with kne have st: "setToolNameMapping t s m ?k n c =
        pruneSize MAX_ENTRIES (AList.update (makeKey s m ?k) ?e c)"
      by (simp add: store_changed)
    have kd: "makeKey s' m' ?k \<noteq> makeKey s m ?k"
      using makeKey_inj [OF nc(2) nc(1) knc knc] diff by blast
    define f :: "tool_name_entry option \<Rightarrow> string option" where "f = (\<lambda>x. case x of
        None \<Rightarrow> None
      | Some entry \<Rightarrow>
          if t' - ts entry > ENTRY_TTL_MS then None
          else if originalName entry = [] then None else Some (originalName entry))"
    have r: "fst (getOriginalToolName t' s' m' ?k x) = f (map_of x (makeKey s' m' ?k))" for x
      using kne by (simp add: lookup_result f_def)
    have fN: "f None = None" by (simp add: f_def)
    let ?A = "map_of (pruneSize MAX_ENTRIES (AList.update (makeKey s m ?k) ?e c)) (makeKey s' m' ?k)"
    let ?B = "map_of c (makeKey s' m' ?k)"
    from map_of_store(2) [OF ok kd] have "?A = ?B \<or> ?A = None" .
    then have a: "f ?A = f ?B \<or> f ?A = None"
    proof
      assume "?A = ?B" then show ?thesis by simp
    next
      assume "?A = None" then show ?thesis by (simp add: fN)
    qed
    have b: "f ?A = f ?B" if "length c < MAX_ENTRIES"
      using map_of_store(3) [OF ok kd that] by simp
    from a b show ?thesis unfolding st r by blast
  qed
  show ?thesis
  proof (intro conjI impI)
    assume "n \<noteq> [] \<and> ?k \<noteq> n \<and> t' - t \<le> ENTRY_TTL_MS"
    then show "fst (getOriginalToolName t' s m ?k (setToolNameMapping t s m ?k n c)) = Some n"
      using round by blast
  next
    assume "?k = n"
    then show "setToolNameMapping t s m ?k n c = c" by (rule same)
  next
    assume "noColon s \<and> noColon s' \<and> (s', m') \<noteq> (s, m)"
    then have i: "noColon s" "noColon s'" "(s', m') \<noteq> (s, m)" by simp_all
    from iso [OF i]
    show "fst (getOriginalToolName t' s' m' ?k (setToolNameMapping t s m ?k n c))
               = fst (getOriginalToolName t' s' m' ?k c) \<or>
          fst (getOriginalToolName t' s' m' ?k (setToolNameMapping t s m ?k n c)) = None"
      by (rule conjunct1)
  next
    assume "noColon s \<and> noColon s' \<and> (s', m') \<noteq> (s, m)" and l: "length c < MAX_ENTRIES"
    then have i: "noColon s" "noColon s'" "(s', m') \<noteq> (s, m)" by simp_all
    from iso [OF i] l
    show "fst (getOriginalToolName t' s' m' ?k (setToolNameMapping t s m ?k n c))
                 = fst (getOriginalToolName t' s' m' ?k c)"
      by blast
  qed
qed


lemma evict_head:
  assumes ok: "toolNameMap_ok c" and full: "length c = MAX_ENTRIES"
    and new: "k \<notin> fst ` set c" and hd: "c = (k0, e0) # rest"
  shows "map_of (pruneSize MAX_ENTRIES (AList.update k v c)) k0 = None"
proof -
  from new have u: "AList.update k v c = c @ [(k, v)]" by (rule update_absent)
  from full have "pruneSize MAX_ENTRIES (c @ [(k, v)]) = drop (Suc 0) (c @ [(k, v)])"
    by (simp add: pruneSize_drop)
  also have "\<dots> = rest @ [(k, v)]" unfolding hd by simp
  finally have p: "pruneSize MAX_ENTRIES (AList.update k v c) = rest @ [(k, v)]"
    unfolding u .
  from ok hd have "k0 \<notin> fst ` set rest" by (simp add: toolNameMap_ok_def)
  then have "map_of rest k0 = None" by (simp add: map_of_eq_None_iff)
  moreover from new hd have "k0 \<noteq> k" by auto
  ultimately show ?thesis unfolding p by (simp add: map_of_append)
qed

lemma noColon_replicate_a: "noColon (replicate n (CHR ''a''))"
  by (simp add: noColon_def)

lemma noColon_a_b: "noColon ''a_b''"
  by (simp add: noColon_def)

lemma fullToolNameMap_ok: "toolNameMap_ok fullToolNameMap"
proof -
  have "inj_on (\<lambda>i. makeKey (replicate (Suc i) (CHR ''a'')) ''m'' ''a_b'') (set [0..<512])"
  proof (rule inj_onI)
    fix i j
    assume "makeKey (replicate (Suc i) (CHR ''a'')) ''m'' ''a_b''
          = makeKey (replicate (Suc j) (CHR ''a'')) ''m'' ''a_b''"
    from makeKey_inj [OF noColon_replicate_a noColon_replicate_a noColon_a_b noColon_a_b this]
    have "replicate (Suc i) (CHR ''a'') = replicate (Suc j) (CHR ''a'')" by simp
    then have "length (replicate (Suc i) (CHR ''a'')) = length (replicate (Suc j) (CHR ''a''))"
      by (rule arg_cong)
    then show "i = j" by simp
  qed
  then have "distinct (map fst fullToolNameMap)"
    by (simp add: fullToolNameMap_def distinct_map comp_def)
  moreover have "length fullToolNameMap = 512" by (simp add: fullToolNameMap_def)
  ultimately show ?thesis by (simp add: toolNameMap_ok_def MAX_ENTRIES_def)
qed

lemma fullToolNameMap_head:
  "fullToolNameMap =
     (makeKey ''a'' ''m'' ''a_b'', \<lparr>originalName = ''a.b'', ts = 0\<rparr>) #
     map (\<lambda>i. (makeKey (replicate (Suc i) (CHR ''a'')) ''m'' ''a_b'',
               \<lparr>originalName = ''a.b'', ts = 0\<rparr>)) [Suc 0..<512]"
proof -
  have "[0..<512] = 0 # [Suc 0..<512]" by (simp add: upt_conv_Cons)
  then show ?thesis unfolding fullToolNameMap_def by simp
qed

lemma fullToolNameMap_fresh: "makeKey ''b'' ''m'' ''a_b'' \<notin> fst ` set fullToolNameMap"
proof
  assume "makeKey ''b'' ''m'' ''a_b'' \<in> fst ` set fullToolNameMap"
  then obtain i where "makeKey ''b'' ''m'' ''a_b'' = makeKey (replicate (Suc i) (CHR ''a'')) ''m'' ''a_b''"
    by (auto simp: fullToolNameMap_def)
  from makeKey_inj [OF _ noColon_replicate_a noColon_a_b noColon_a_b this]
  have "''b'' = replicate (Suc i) (CHR ''a'')" by (simp add: noColon_def)
  then show False by simp
qed

text \<open>
  The claim as stated fails twice. A name that is already safe is never stored, so the
  lookup after the store returns \<open>null\<close>, not the name (callers then fall back to the
  safe name itself). And the cache holds at most 512 entries: a store into a full cache
  evicts the oldest entry, which may belong to another session, whose lookup then
  changes from the original name to \<open>null\<close>.
\<close>

theorem tool_name_round_trip_counterexample:
  "fst (getOriginalToolName 0 ''s'' ''m'' (sanitizeToolName (JString ''lookup''))
         (setToolNameMapping 0 ''s'' ''m'' (sanitizeToolName (JString ''lookup'')) ''lookup'' []))
     = None \<and>
   fst (getOriginalToolName 0 ''a'' ''m'' (sanitizeToolName (JString ''a.b'')) fullToolNameMap)
     = Some ''a.b'' \<and>
   fst (getOriginalToolName 0 ''a'' ''m'' (sanitizeToolName (JString ''a.b''))
         (setToolNameMapping 0 ''b'' ''m'' (sanitizeToolName (JString ''a!b'')) ''a!b''
            fullToolNameMap))
     = None"
proof -
  have s1: "sanitizeToolName (JString ''lookup'') = ''lookup''" by code_simp
  have s2: "sanitizeToolName (JString ''a.b'') = ''a_b''" by code_simp
  have s3: "sanitizeToolName (JString ''a!b'') = ''a_b''" by code_simp
  have a: "fst (getOriginalToolName 0 ''s'' ''m'' ''lookup''
         (setToolNameMapping 0 ''s'' ''m'' ''lookup'' ''lookup'' [])) = None"
    by (simp add: store_unchanged lookup_result)
  have "map_of fullToolNameMap (makeKey ''a'' ''m'' ''a_b'') = Some \<lparr>originalName = ''a.b'', ts = 0\<rparr>"
    by (subst fullToolNameMap_head) simp
  then have b: "fst (getOriginalToolName 0 ''a'' ''m'' ''a_b'' fullToolNameMap) = Some ''a.b''"
    by (simp add: lookup_result ENTRY_TTL_MS_def)
  have full: "length fullToolNameMap = MAX_ENTRIES"
    by (simp add: fullToolNameMap_def MAX_ENTRIES_def)
  have "map_of (pruneSize MAX_ENTRIES
           (AList.update (makeKey ''b'' ''m'' ''a_b'') \<lparr>originalName = ''a!b'', ts = 0\<rparr>
              fullToolNameMap)) (makeKey ''a'' ''m'' ''a_b'') = None"
    by (rule evict_head [OF fullToolNameMap_ok full fullToolNameMap_fresh fullToolNameMap_head])
  then have c: "fst (getOriginalToolName 0 ''a'' ''m'' ''a_b''
         (setToolNameMapping 0 ''b'' ''m'' ''a_b'' ''a!b'' fullToolNameMap)) = None"
    by (simp add: store_changed lookup_result)
  from a b c show ?thesis unfolding s1 s2 s3 by simp
qed

theorem tool_name_round_trip_witness:
  "fst (getOriginalToolName 1000 ''s1'' ''m'' (sanitizeToolName (JString ''my.tool!''))
         (setToolNameMapping 0 ''s1'' ''m'' (sanitizeToolName (JString ''my.tool!'')) ''my.tool!'' []))
     = Some ''my.tool!'' \<and>
   fst (getOriginalToolName 1000 ''s2'' ''m'' (sanitizeToolName (JString ''my.tool!''))
         (setToolNameMapping 0 ''s1'' ''m'' (sanitizeToolName (JString ''my.tool!'')) ''my.tool!'' []))
     = fst (getOriginalToolName 1000 ''s2'' ''m'' (sanitizeToolName (JString ''my.tool!'')) []) \<and>
   setToolNameMapping 0 ''s1'' ''m'' (sanitizeToolName (JString ''lookup'')) ''lookup'' [] = []"
proof -
  have ok: "toolNameMap_ok []" by (simp add: toolNameMap_ok_def)
  have h1: "''my.tool!'' \<noteq> [] \<and> sanitizeToolName (JString ''my.tool!'') \<noteq> ''my.tool!''
      \<and> (1000::int) - 0 \<le> ENTRY_TTL_MS"
    by code_simp
  have h2: "sanitizeToolName (JString ''lookup'') = ''lookup''" by code_simp
  have h3: "noColon ''s1'' \<and> noColon ''s2'' \<and> (''s2'', ''m'') \<noteq> (''s1'', ''m'')"
    by (simp add: noColon_def)
  have h4: "length ([] :: tool_name_map) < MAX_ENTRIES" by (simp add: MAX_ENTRIES_def)
  note w1 = tool_name_round_trip [OF ok, of "''my.tool!''" 1000 0 "''s1''" "''m''" "''s2''" "''m''"]
  note w2 = tool_name_round_trip [OF ok, of "''lookup''" 1000 0 "''s1''" "''m''" "''s2''" "''m''"]
  from w1 h1 have a: "fst (getOriginalToolName 1000 ''s1'' ''m'' (sanitizeToolName (JString ''my.tool!''))
         (setToolNameMapping 0 ''s1'' ''m'' (sanitizeToolName (JString ''my.tool!'')) ''my.tool!'' []))
     = Some ''my.tool!''" by blast
  from w1 h3 h4 have b: "fst (getOriginalToolName 1000 ''s2'' ''m'' (sanitizeToolName (JString ''my.tool!''))
         (setToolNameMapping 0 ''s1'' ''m'' (sanitizeToolName (JString ''my.tool!'')) ''my.tool!'' []))
     = fst (getOriginalToolName 1000 ''s2'' ''m'' (sanitizeToolName (JString ''my.tool!'')) [])"
    by blast
  from w2 h2 have c: "setToolNameMapping 0 ''s1'' ''m'' (sanitizeToolName (JString ''lookup'')) ''lookup'' [] = []"
    by blast
  from a b c show ?thesis by blast
qed

section \<open>Reading a body\<close>

lemma splitNewline_nonempty: "splitNewline s \<noteq> []"
  by (induction s) (auto split: list.split)

lemma splitNewline_append:
  "splitNewline (a @ b) = butlast (splitNewline a) @ splitNewline (last (splitNewline a) @ b)"
proof (induction a)
  case Nil
  show ?case by simp
next
  case (Cons c cs)
  obtain l ls where s: "splitNewline cs = l # ls"
    using splitNewline_nonempty [of cs] by (cases "splitNewline cs") auto
  show ?case
  proof (cases "c = CHR 0x0A")
    case True
    with Cons.IH show ?thesis by (simp add: splitNewline_nonempty)
  next
    case False
    show ?thesis
    proof (cases "ls = []")
      case True
      with s Cons.IH have "splitNewline (cs @ b) = splitNewline (l @ b)" by simp
      moreover obtain l1 ls1 where "splitNewline (l @ b) = l1 # ls1"
        using splitNewline_nonempty [of "l @ b"] by (cases "splitNewline (l @ b)") auto
      ultimately show ?thesis using False s True by simp
    next
      case ne: False
      with s Cons.IH have "splitNewline (cs @ b) = (l # butlast ls) @ splitNewline (last ls @ b)"
        by simp
      with False s ne show ?thesis by simp
    qed
  qed
qed

lemma sseLines_append: "sseLines (a @ b) = sseLines a @ sseLines (sseRest a @ b)"
  unfolding sseLines_def sseRest_def
  by (subst splitNewline_append) (simp add: butlast_append splitNewline_nonempty)

lemma sseRest_append: "sseRest (a @ b) = sseRest (sseRest a @ b)"
  unfolding sseRest_def
  by (subst splitNewline_append) (simp add: splitNewline_nonempty)

lemma sseLines_Nil: "sseLines [] = []"
  by (simp add: sseLines_def)

lemma sseRest_Nil: "sseRest [] = []"
  by (simp add: sseRest_def)

text \<open>The accumulator never looks at its buffer while it handles a line.\<close>

lemma accPart_buffer: "accPart (st\<lparr>acc_buffer := b\<rparr>) p = (accPart st p)\<lparr>acc_buffer := b\<rparr>"
  by (simp add: accPart_def flushText_def flushThinking_def Let_def split: option.split)

lemma foldl_accPart_buffer:
  "foldl accPart (st\<lparr>acc_buffer := b\<rparr>) ps = (foldl accPart st ps)\<lparr>acc_buffer := b\<rparr>"
  by (induction ps arbitrary: st) (simp_all add: accPart_buffer)

lemma buffer_out:
  "st\<lparr>acc_buffer := b, acc_usageMetadata := u\<rparr> = st\<lparr>acc_usageMetadata := u, acc_buffer := b\<rparr>"
  "st\<lparr>acc_buffer := b, acc_finishReason := f\<rparr> = st\<lparr>acc_finishReason := f, acc_buffer := b\<rparr>"
  by simp_all

lemma accData_buffer: "accData (st\<lparr>acc_buffer := b\<rparr>) d = (accData st d)\<lparr>acc_buffer := b\<rparr>"
  by (simp add: accData_def Let_def buffer_out foldl_accPart_buffer split: option.split)

lemma accLine_buffer: "accLine e (st\<lparr>acc_buffer := b\<rparr>) l = (accLine e st l)\<lparr>acc_buffer := b\<rparr>"
  by (simp add: accLine_def accData_buffer split: option.split)

lemma foldl_accLine_buffer:
  "foldl (accLine e) (st\<lparr>acc_buffer := b\<rparr>) ls = (foldl (accLine e) st ls)\<lparr>acc_buffer := b\<rparr>"
  by (induction ls arbitrary: st) (simp_all add: accLine_buffer)

lemma accChunk_eq:
  "accChunk e st v =
     (foldl (accLine e) st (sseLines (acc_buffer st @ v)))\<lparr>acc_buffer := sseRest (acc_buffer st @ v)\<rparr>"
  by (simp add: accChunk_def Let_def foldl_accLine_buffer)

text \<open>Reading a body chunk by chunk handles the complete lines of the whole text.\<close>

lemma foldl_accChunk:
  "foldl (accChunk e) (st\<lparr>acc_buffer := sseRest pre\<rparr>) body =
     (foldl (accLine e) st (sseLines (sseRest pre @ concat body)))
       \<lparr>acc_buffer := sseRest (sseRest pre @ concat body)\<rparr>"
proof (induction body arbitrary: st pre)
  case Nil
  have "sseLines (sseRest pre @ []) = sseLines (sseRest pre)" by simp
  moreover have "sseLines pre @ sseLines (sseRest pre @ []) = sseLines (pre @ [])"
    by (rule sseLines_append [symmetric])
  ultimately have "sseLines (sseRest pre) = []" by simp
  moreover have "sseRest (sseRest pre @ []) = sseRest pre"
    using sseRest_append [of pre "[]"] by simp
  ultimately show ?case by simp
next
  case (Cons v vs)
  let ?b = "sseRest pre @ v"
  let ?st1 = "foldl (accLine e) st (sseLines ?b)"
  have "accChunk e (st\<lparr>acc_buffer := sseRest pre\<rparr>) v = ?st1\<lparr>acc_buffer := sseRest ?b\<rparr>"
    by (simp add: accChunk_eq foldl_accLine_buffer)
  then have "foldl (accChunk e) (st\<lparr>acc_buffer := sseRest pre\<rparr>) (v # vs) =
      foldl (accChunk e) (?st1\<lparr>acc_buffer := sseRest ?b\<rparr>) vs" by simp
  also have "\<dots> = (foldl (accLine e) ?st1 (sseLines (sseRest ?b @ concat vs)))
       \<lparr>acc_buffer := sseRest (sseRest ?b @ concat vs)\<rparr>"
    by (rule Cons.IH)
  also have "foldl (accLine e) ?st1 (sseLines (sseRest ?b @ concat vs)) =
      foldl (accLine e) st (sseLines (?b @ concat vs))"
    by (simp only: sseLines_append [of ?b "concat vs"] foldl_append)
  also have "sseRest (sseRest ?b @ concat vs) = sseRest (?b @ concat vs)"
    by (rule sseRest_append [symmetric])
  finally show ?case by (simp only: concat.simps append_assoc)
qed

lemma foldl_accLine:
  "foldl (accLine e) st ls = foldl accData st (List.map_filter (linePayload e) ls)"
  by (induction ls arbitrary: st) (simp_all add: accLine_def map_filter_simps split: option.split)

lemma accInit_buffer: "accInit = accInit\<lparr>acc_buffer := sseRest []\<rparr>"
  by (simp add: accInit_def sseRest_Nil)

lemma body_fold:
  "\<exists>b. foldl (accChunk e) accInit body = (foldl accData accInit (bodyPayloads e body))\<lparr>acc_buffer := b\<rparr>"
proof -
  have "foldl (accChunk e) accInit body = foldl (accChunk e) (accInit\<lparr>acc_buffer := sseRest []\<rparr>) body"
    using accInit_buffer by simp
  also have "\<dots> = (foldl (accLine e) accInit (sseLines (sseRest [] @ concat body)))
       \<lparr>acc_buffer := sseRest (sseRest [] @ concat body)\<rparr>"
    by (rule foldl_accChunk)
  finally show ?thesis
    by (auto simp: sseRest_Nil foldl_accLine bodyPayloads_def)
qed


text \<open>Handling the parts neither reads nor writes the usage and the finish reason.\<close>

lemma accPart_usage:
  "accPart (st\<lparr>acc_usageMetadata := u\<rparr>) p = (accPart st p)\<lparr>acc_usageMetadata := u\<rparr>"
  by (simp add: accPart_def flushText_def flushThinking_def Let_def split: option.split)

lemma accPart_finish:
  "accPart (st\<lparr>acc_finishReason := f\<rparr>) p = (accPart st p)\<lparr>acc_finishReason := f\<rparr>"
  by (simp add: accPart_def flushText_def flushThinking_def Let_def split: option.split)

lemma foldl_accPart_usage:
  "foldl accPart (st\<lparr>acc_usageMetadata := u\<rparr>) ps = (foldl accPart st ps)\<lparr>acc_usageMetadata := u\<rparr>"
  by (induction ps arbitrary: st) (simp_all add: accPart_usage)

lemma foldl_accPart_finish:
  "foldl accPart (st\<lparr>acc_finishReason := f\<rparr>) ps = (foldl accPart st ps)\<lparr>acc_finishReason := f\<rparr>"
  by (induction ps arbitrary: st) (simp_all add: accPart_finish)

lemma accPart_keeps:
  "acc_usageMetadata (accPart st p) = acc_usageMetadata st"
  "acc_finishReason (accPart st p) = acc_finishReason st"
  by (simp_all add: accPart_def flushText_def flushThinking_def Let_def split: option.split)

lemma foldl_accPart_keeps:
  "acc_usageMetadata (foldl accPart st ps) = acc_usageMetadata st"
  "acc_finishReason (foldl accPart st ps) = acc_finishReason st"
  by (induction ps arbitrary: st) (simp_all add: accPart_keeps)

lemma update_same:
  "acc_finishReason r = f \<Longrightarrow> r\<lparr>acc_finishReason := f\<rparr> = r"
  "acc_usageMetadata r = u \<Longrightarrow> r\<lparr>acc_usageMetadata := u\<rparr> = r"
  by auto

lemma accData_eq:
  "accData st d =
     (foldl accPart st (payloadParts d))
       \<lparr>acc_usageMetadata :=
          (case usageMetadata (innerResponse d) of Some u \<Rightarrow> u | None \<Rightarrow> acc_usageMetadata st),
        acc_finishReason :=
          (if truthyStr (payloadFinish d) then orEmpty (payloadFinish d) else acc_finishReason st)\<rparr>"
proof -
  let ?ps = "payloadParts d"
  have k1: "(foldl accPart st ?ps)\<lparr>acc_usageMetadata := acc_usageMetadata st\<rparr> = foldl accPart st ?ps"
    by (rule update_same) (rule foldl_accPart_keeps)
  have k2: "r\<lparr>acc_finishReason := acc_finishReason st\<rparr> = r"
    if "acc_finishReason r = acc_finishReason st" for r :: acc_state
    using that by (rule update_same)
  have k3: "(foldl accPart st ?ps)\<lparr>acc_finishReason := acc_finishReason st\<rparr> = foldl accPart st ?ps"
    by (rule k2) (rule foldl_accPart_keeps)
  have k4: "(foldl accPart st ?ps)\<lparr>acc_usageMetadata := u, acc_finishReason := acc_finishReason st\<rparr>
      = (foldl accPart st ?ps)\<lparr>acc_usageMetadata := u\<rparr>" for u
    by (rule k2) (simp add: foldl_accPart_keeps)
  show ?thesis
  proof (cases "usageMetadata (innerResponse d)")
    case None
    show ?thesis
    proof (cases "truthyStr (payloadFinish d)")
      case True
      with None show ?thesis
        by (simp add: accData_def Let_def payloadParts_def [symmetric] payloadFinish_def [symmetric]
            foldl_accPart_finish k1)
    next
      case False
      with None show ?thesis
        by (simp add: accData_def Let_def payloadParts_def [symmetric] payloadFinish_def [symmetric]
            k1 k3)
    qed
  next
    case (Some u)
    show ?thesis
    proof (cases "truthyStr (payloadFinish d)")
      case True
      with Some show ?thesis
        by (simp add: accData_def Let_def payloadParts_def [symmetric] payloadFinish_def [symmetric]
            foldl_accPart_finish foldl_accPart_usage)
    next
      case False
      with Some show ?thesis
        by (simp add: accData_def Let_def payloadParts_def [symmetric] payloadFinish_def [symmetric]
            foldl_accPart_usage k4)
    qed
  qed
qed

lemma foldl_accData:
  "\<exists>u. foldl accData st ds =
     (foldl accPart st (concat (map payloadParts ds)))
       \<lparr>acc_usageMetadata := u,
        acc_finishReason := (if statedFinish ds = [] then acc_finishReason st else last (statedFinish ds))\<rparr>"
proof (induction ds rule: rev_induct)
  case Nil
  show ?case
    by (rule exI [of _ "acc_usageMetadata st"]) (simp add: statedFinish_def)
next
  case (snoc d ds)
  let ?X = "foldl accPart st (concat (map payloadParts ds))"
  let ?f = "if statedFinish ds = [] then acc_finishReason st else last (statedFinish ds)"
  from snoc obtain u where ih: "foldl accData st ds = ?X\<lparr>acc_usageMetadata := u, acc_finishReason := ?f\<rparr>"
    by blast
  let ?u' = "case usageMetadata (innerResponse d) of Some v \<Rightarrow> v | None \<Rightarrow> u"
  have f': "(if truthyStr (payloadFinish d) then orEmpty (payloadFinish d) else ?f)
      = (if statedFinish (ds @ [d]) = [] then acc_finishReason st else last (statedFinish (ds @ [d])))"
    by (simp add: statedFinish_def)
  have "foldl accData st (ds @ [d]) = accData (?X\<lparr>acc_usageMetadata := u, acc_finishReason := ?f\<rparr>) d"
    by (simp add: ih)
  also have "\<dots> = (foldl accPart ?X (payloadParts d))
       \<lparr>acc_usageMetadata := ?u',
        acc_finishReason := (if truthyStr (payloadFinish d) then orEmpty (payloadFinish d) else ?f)\<rparr>"
    by (simp add: accData_eq foldl_accPart_finish foldl_accPart_usage split: option.split)
  also have "foldl accPart ?X (payloadParts d) = foldl accPart st (concat (map payloadParts (ds @ [d])))"
    by simp
  finally show ?case unfolding f' by blast
qed



section \<open>The streaming path\<close>

lemma foldl_invariant:
  assumes "\<And>s x. P s \<Longrightarrow> P (f s x)" and "P s"
  shows "P (foldl f s xs)"
  using assms(2) by (induction xs arbitrary: s) (simp_all add: assms(1))

lemma chunk_no_finish: "chunkFinishReason (createStreamChunk e i m d None u) = None"
  by (simp add: chunkFinishReason_def createStreamChunk_def)

lemma chunk_finish: "chunkFinishReason (createStreamChunk e i m d (Some r) u) = Some r"
  by (simp add: chunkFinishReason_def createStreamChunk_def)

lemma chunk_usage: "ch_usage (createStreamChunk e i m d r u) = u"
  by (simp add: createStreamChunk_def)

lemma noFinish_yield:
  "noFinish st \<Longrightarrow> noFinish (yield (createStreamChunk e i m d None u) st)"
  by (simp add: noFinish_def yield_def chunk_no_finish)

lemma noFinish_upd [simp]:
  "noFinish (st\<lparr>currentBlockType := a\<rparr>) = noFinish st"
  "noFinish (st\<lparr>currentThinkingSignature := b\<rparr>) = noFinish st"
  "noFinish (st\<lparr>st_finishReason := c\<rparr>) = noFinish st"
  "noFinish (st\<lparr>hasEmittedStart := d\<rparr>) = noFinish st"
  "noFinish (st\<lparr>st_buffer := f\<rparr>) = noFinish st"
  "noFinish (st\<lparr>pendingToolCalls := g\<rparr>) = noFinish st"
  "noFinish (st\<lparr>st_caches := h\<rparr>) = noFinish st"
  "noFinish (st\<lparr>inputTokens := i\<rparr>) = noFinish st"
  "noFinish (st\<lparr>outputTokens := j\<rparr>) = noFinish st"
  "noFinish (st\<lparr>cacheReadTokens := k\<rparr>) = noFinish st"
  by (simp_all add: noFinish_def)

lemma noFinish_streamPart:
  "noFinish st \<Longrightarrow> noFinish (streamPart e i m s st p)"
  by (simp add: streamPart_def Let_def noFinish_yield split: option.split prod.split)

lemma noFinish_usage:
  "noFinish st \<Longrightarrow>
   noFinish (case x of
               Some u \<Rightarrow>
                 st\<lparr>inputTokens := orPrevious (promptTokenCount u) (inputTokens st),
                    outputTokens := orPrevious (candidatesTokenCount u) (outputTokens st),
                    cacheReadTokens :=
                      orPrevious (cachedContentTokenCount u) (cacheReadTokens st)\<rparr>
             | None \<Rightarrow> st)"
  by (simp split: option.split)

lemma noFinish_start:
  "noFinish st \<Longrightarrow>
   noFinish (if \<not> hasEmittedStart st \<and> length ps > 0
               then yield (createStreamChunk e i m DeltaStart None None)
                      (st\<lparr>hasEmittedStart := True\<rparr>)
             else st)"
  by (simp add: noFinish_yield)

lemma noFinish_parts:
  "noFinish st \<Longrightarrow> noFinish (foldl (streamPart e i m s) st ps)"
  by (rule foldl_invariant [where P = noFinish]) (simp_all add: noFinish_streamPart)

lemma noFinish_reason:
  "noFinish st \<Longrightarrow> noFinish (if b then st\<lparr>st_finishReason := r\<rparr> else st)"
  by simp

lemma noFinish_streamData:
  assumes "noFinish st"
  shows "noFinish (streamData e i m s st d)"
  unfolding streamData_def Let_def
  by (intro noFinish_reason noFinish_parts noFinish_start noFinish_usage assms)

lemma noFinish_streamLine: "noFinish st \<Longrightarrow> noFinish (streamLine e i m s st l)"
  by (simp add: streamLine_def noFinish_streamData split: option.split)

lemma noFinish_streamChunk:
  assumes "noFinish st"
  shows "noFinish (streamChunk e i m s st v)"
  unfolding streamChunk_def Let_def
  by (rule foldl_invariant [where P = noFinish]) (simp_all add: noFinish_streamLine assms)

lemma noFinish_init: "noFinish (streamInit cs)"
  by (simp add: noFinish_def streamInit_def)

lemma noFinish_body:
  "noFinish (foldl (streamChunk e i m s) (streamInit cs) body)"
  by (rule foldl_invariant [where P = noFinish]) (simp_all add: noFinish_streamChunk noFinish_init)

lemma stream_output:
  "\<exists>st pre fr u. noFinish st \<and> (pre = [] \<or> (\<exists>c. pre = [c] \<and> chunkFinishReason c = None)) \<and>
     fst (streamGoogleToOpenAI e body m s cs) = yielded st @ pre @
        [createStreamChunk e (''chatcmpl-'' @ randomHex e) m DeltaEmpty (Some fr) (Some u)] \<and>
     total_tokens u = prompt_tokens u + completion_tokens u"
proof -
  let ?i = "''chatcmpl-'' @ randomHex e"
  let ?st = "foldl (streamChunk e ?i m s) (streamInit cs) body"
  have nf: "noFinish ?st" by (rule noFinish_body)
  let ?u = "\<lparr>prompt_tokens = inputTokens ?st, completion_tokens = outputTokens ?st,
             total_tokens = inputTokens ?st + outputTokens ?st,
             cached_tokens = (if cacheReadTokens ?st > 0 then Some (cacheReadTokens ?st) else None)\<rparr>"
  let ?pre = "if length (pendingToolCalls ?st) > 0
      then [createStreamChunk e ?i m (DeltaToolCalls (pendingToolCalls ?st)) None None] else []"
  have out: "fst (streamGoogleToOpenAI e body m s cs) = yielded ?st @ ?pre @
        [createStreamChunk e ?i m DeltaEmpty (Some (st_finishReason ?st)) (Some ?u)]"
    by (simp add: streamGoogleToOpenAI_def Let_def yield_def)
  have pre: "?pre = [] \<or> (\<exists>c. ?pre = [c] \<and> chunkFinishReason c = None)"
    by (simp add: chunk_no_finish)
  have tot: "total_tokens ?u = prompt_tokens ?u + completion_tokens ?u" by simp
  from nf pre out tot show ?thesis by blast
qed

text \<open>
  Claim C10. For every upstream body that is read to its end, also one without a single
  parseable \<open>data:\<close> line, \<open>streamGoogleToOpenAI\<close> yields at least one chunk; the last
  chunk, and no chunk before it, has a finish reason; and the last chunk has a usage
  object whose \<open>total_tokens\<close> is the sum of \<open>prompt_tokens\<close> and \<open>completion_tokens\<close>.
\<close>

theorem stream_final_chunk:
  "fst (streamGoogleToOpenAI e body m s cs) \<noteq> [] \<and>
   chunkFinishReason (last (fst (streamGoogleToOpenAI e body m s cs))) \<noteq> None \<and>
   (\<forall>c \<in> set (butlast (fst (streamGoogleToOpenAI e body m s cs))). chunkFinishReason c = None) \<and>
   (\<exists>u. ch_usage (last (fst (streamGoogleToOpenAI e body m s cs))) = Some u \<and>
        total_tokens u = prompt_tokens u + completion_tokens u)"
proof -
  from stream_output [of e body m s cs] obtain st pre fr u where
    nf: "noFinish st" and
    pre: "pre = [] \<or> (\<exists>c. pre = [c] \<and> chunkFinishReason c = None)" and
    out: "fst (streamGoogleToOpenAI e body m s cs) = yielded st @ pre @
        [createStreamChunk e (''chatcmpl-'' @ randomHex e) m DeltaEmpty (Some fr) (Some u)]" and
    tot: "total_tokens u = prompt_tokens u + completion_tokens u"
    by blast
  let ?f = "createStreamChunk e (''chatcmpl-'' @ randomHex e) m DeltaEmpty (Some fr) (Some u)"
  have l: "last (fst (streamGoogleToOpenAI e body m s cs)) = ?f" unfolding out by simp
  have b: "butlast (fst (streamGoogleToOpenAI e body m s cs)) = yielded st @ pre"
    unfolding out by (simp add: butlast_append)
  have "\<forall>c \<in> set (yielded st @ pre). chunkFinishReason c = None"
    using nf pre by (auto simp: noFinish_def list_all_iff)
  with l b tot show ?thesis
    by (simp add: out chunk_finish chunk_usage)
qed


section \<open>The non-streaming thinking path\<close>

lemma accumulate_state:
  "\<exists>u b. foldl (accChunk e) accInit body =
     (foldl accPart accInit (bodyParts e body))
       \<lparr>acc_usageMetadata := u,
        acc_finishReason := (if bodyFinishReasons e body = [] then ''STOP''
                             else last (bodyFinishReasons e body)),
        acc_buffer := b\<rparr>"
proof -
  from body_fold [of e body] obtain b where
    1: "foldl (accChunk e) accInit body = (foldl accData accInit (bodyPayloads e body))\<lparr>acc_buffer := b\<rparr>"
    by blast
  from foldl_accData [of accInit "bodyPayloads e body"] obtain u where
    2: "foldl accData accInit (bodyPayloads e body) =
     (foldl accPart accInit (concat (map payloadParts (bodyPayloads e body))))
       \<lparr>acc_usageMetadata := u,
        acc_finishReason := (if statedFinish (bodyPayloads e body) = [] then acc_finishReason accInit
                             else last (statedFinish (bodyPayloads e body)))\<rparr>"
    by blast
  have 3: "acc_finishReason accInit = ''STOP''" by (simp add: accInit_def)
  show ?thesis
    unfolding 1 2 3 bodyParts_def bodyFinishReasons_def by blast
qed

lemma accumulate_two_parts:
  assumes p1: "thought p1" "partText p1 = Some ''ok ''"
    and p2: "\<not> thought p2" "functionCall p2 = None" "partText p2 = Some ''hello''"
  shows "\<exists>sig. finalParts (flushText (flushThinking
            ((foldl accPart accInit [p1, p2])\<lparr>acc_usageMetadata := u, acc_finishReason := f,
               acc_buffer := b\<rparr>))) =
         [\<lparr>thought = True, partText = Some ''ok '', functionCall = None,
           functionResponse = None, thoughtSignature = Some sig\<rparr>,
          \<lparr>thought = False, partText = Some ''hello'', functionCall = None,
           functionResponse = None, thoughtSignature = None\<rparr>]"
  using p1 p2
  by (simp add: accPart_def accInit_def flushText_def flushThinking_def Let_def orEmpty_def)

lemma accumulate_result:
  assumes ps: "bodyParts e body = [p1, p2]"
    and p1: "thought p1" "partText p1 = Some ''ok ''"
    and p2: "\<not> thought p2" "functionCall p2 = None" "partText p2 = Some ''hello''"
    and fr: "bodyFinishReasons e body = [] \<or> last (bodyFinishReasons e body) = ''STOP''"
  shows "\<exists>sig u. accumulateSSEResponse e body =
     \<lparr>candidates =
        Some [\<lparr>content = Some \<lparr>role = None, parts = Some
                 [\<lparr>thought = True, partText = Some ''ok '', functionCall = None,
                   functionResponse = None, thoughtSignature = Some sig\<rparr>,
                  \<lparr>thought = False, partText = Some ''hello'', functionCall = None,
                   functionResponse = None, thoughtSignature = None\<rparr>]\<rparr>,
               finishReason = Some ''STOP''\<rparr>],
      usageMetadata = Some u\<rparr>"
proof -
  from fr have f: "(if bodyFinishReasons e body = [] then ''STOP''
                    else last (bodyFinishReasons e body)) = ''STOP''" by auto
  from accumulate_state [of e body] obtain u b where
    st: "foldl (accChunk e) accInit body =
     (foldl accPart accInit [p1, p2])
       \<lparr>acc_usageMetadata := u, acc_finishReason := ''STOP'', acc_buffer := b\<rparr>"
    unfolding f ps by blast
  from accumulate_two_parts [OF p1 p2, where u = u and f = "''STOP''" and b = b] obtain sig where
    fp: "finalParts (flushText (flushThinking
            ((foldl accPart accInit [p1, p2])\<lparr>acc_usageMetadata := u, acc_finishReason := ''STOP'',
               acc_buffer := b\<rparr>))) =
         [\<lparr>thought = True, partText = Some ''ok '', functionCall = None,
           functionResponse = None, thoughtSignature = Some sig\<rparr>,
          \<lparr>thought = False, partText = Some ''hello'', functionCall = None,
           functionResponse = None, thoughtSignature = None\<rparr>]"
    by blast
  have fin: "acc_finishReason (flushText (flushThinking st)) = acc_finishReason st" for st
    by (simp add: flushText_def flushThinking_def)
  have "accumulateSSEResponse e body =
     \<lparr>candidates =
        Some [\<lparr>content = Some \<lparr>role = None, parts = Some
                 [\<lparr>thought = True, partText = Some ''ok '', functionCall = None,
                   functionResponse = None, thoughtSignature = Some sig\<rparr>,
                  \<lparr>thought = False, partText = Some ''hello'', functionCall = None,
                   functionResponse = None, thoughtSignature = None\<rparr>]\<rparr>,
               finishReason = Some ''STOP''\<rparr>],
      usageMetadata = Some (acc_usageMetadata (flushText (flushThinking
            ((foldl accPart accInit [p1, p2])\<lparr>acc_usageMetadata := u, acc_finishReason := ''STOP'',
               acc_buffer := b\<rparr>))))\<rparr>"
    unfolding accumulateSSEResponse_def Let_def st fp fin by simp
  then show ?thesis by blast
qed

lemma convert_two_parts:
  "fst (convertGoogleToOpenAI e
     \<lparr>candidates =
        Some [\<lparr>content = Some \<lparr>role = None, parts = Some
                 [\<lparr>thought = True, partText = Some ''ok '', functionCall = None,
                   functionResponse = None, thoughtSignature = Some sig\<rparr>,
                  \<lparr>thought = False, partText = Some ''hello'', functionCall = None,
                   functionResponse = None, thoughtSignature = None\<rparr>]\<rparr>,
               finishReason = Some ''STOP''\<rparr>],
      usageMetadata = Some u\<rparr> originalModel sessionId cs) =
   \<lparr>r_id = ''chatcmpl-'' @ randomHex e, r_object = ''chat.completion'',
    r_created = now e div 1000, r_model = originalModel,
    choices = [\<lparr>c_index = 0,
                c_message = \<lparr>m_role = ''assistant'', m_content = Some ''hello'',
                             reasoning_content = Some ''ok '', tool_calls = None\<rparr>,
                finish_reason = ''stop''\<rparr>],
    usage = \<lparr>prompt_tokens = orZero (promptTokenCount u),
             completion_tokens = orZero (candidatesTokenCount u),
             total_tokens = orZero (promptTokenCount u) + orZero (candidatesTokenCount u),
             cached_tokens = (if orZero (cachedContentTokenCount u) \<noteq> 0
                              then cachedContentTokenCount u else None)\<rparr>\<rparr>"
  by (simp add: convertGoogleToOpenAI_def Let_def firstCandidate_def candidateParts_def
      convertPart_def orEmpty_def mapFinishReason_def)

lemma openai_thinking_response:
  assumes ps: "bodyParts e body = [p1, p2]"
    and p1: "thought p1" "partText p1 = Some ''ok ''"
    and p2: "\<not> thought p2" "functionCall p2 = None" "partText p2 = Some ''hello''"
    and fr: "bodyFinishReasons e body = [] \<or> last (bodyFinishReasons e body) = ''STOP''"
  shows "\<exists>u. fst (convertGoogleToOpenAI e (accumulateSSEResponse e body) originalModel sessionId cs) =
     \<lparr>r_id = ''chatcmpl-'' @ randomHex e, r_object = ''chat.completion'',
      r_created = now e div 1000, r_model = originalModel,
      choices = [\<lparr>c_index = 0,
                  c_message = \<lparr>m_role = ''assistant'', m_content = Some ''hello'',
                               reasoning_content = Some ''ok '', tool_calls = None\<rparr>,
                  finish_reason = ''stop''\<rparr>],
      usage = u\<rparr>"
proof -
  from accumulate_result [OF ps p1 p2 fr] obtain sig u where
    "accumulateSSEResponse e body =
     \<lparr>candidates =
        Some [\<lparr>content = Some \<lparr>role = None, parts = Some
                 [\<lparr>thought = True, partText = Some ''ok '', functionCall = None,
                   functionResponse = None, thoughtSignature = Some sig\<rparr>,
                  \<lparr>thought = False, partText = Some ''hello'', functionCall = None,
                   functionResponse = None, thoughtSignature = None\<rparr>]\<rparr>,
               finishReason = Some ''STOP''\<rparr>],
      usageMetadata = Some u\<rparr>"
    by blast
  then have "fst (convertGoogleToOpenAI e (accumulateSSEResponse e body) originalModel sessionId cs) =
     \<lparr>r_id = ''chatcmpl-'' @ randomHex e, r_object = ''chat.completion'',
      r_created = now e div 1000, r_model = originalModel,
      choices = [\<lparr>c_index = 0,
                  c_message = \<lparr>m_role = ''assistant'', m_content = Some ''hello'',
                               reasoning_content = Some ''ok '', tool_calls = None\<rparr>,
                  finish_reason = ''stop''\<rparr>],
      usage = \<lparr>prompt_tokens = orZero (promptTokenCount u),
             completion_tokens = orZero (candidatesTokenCount u),
             total_tokens = orZero (promptTokenCount u) + orZero (candidatesTokenCount u),
             cached_tokens = (if orZero (cachedContentTokenCount u) \<noteq> 0
                              then cachedContentTokenCount u else None)\<rparr>\<rparr>"
    by (simp only: convert_two_parts)
  then show ?thesis by (rule exI)
qed


text \<open>
  Claim C1, as the code has it. For every upstream body whose \<open>data:\<close> lines that end in
  a line feed carry, in order, exactly a thought part with text "ok " and a plain text
  part with text "hello", and whose last stated finish reason (if any is stated) is STOP,
  the non-streaming thinking path (\<open>accumulateSSEResponse\<close>, then
  \<open>convertGoogleToOpenAI\<close>) answers with one choice whose message has content "hello"
  and reasoning content "ok ", with finish reason "stop", and with the model name of the
  request. This holds however the body is cut into chunks, whatever other lines it has,
  and for every JSON parser. A last line without line feed stays in the reader's buffer
  and is never handled.
\<close>

theorem openai_thinking_nonstreaming:
  assumes ps: "bodyParts e body = [p1, p2]"
    and p1: "thought p1" "partText p1 = Some ''ok ''"
    and p2: "\<not> thought p2" "functionCall p2 = None" "partText p2 = Some ''hello''"
    and fr: "bodyFinishReasons e body = [] \<or> last (bodyFinishReasons e body) = ''STOP''"
  shows "choices (fst (convertGoogleToOpenAI e (accumulateSSEResponse e body)
                         originalModel sessionId cs)) =
           [\<lparr>c_index = 0,
             c_message = \<lparr>m_role = ''assistant'', m_content = Some ''hello'',
                          reasoning_content = Some ''ok '', tool_calls = None\<rparr>,
             finish_reason = ''stop''\<rparr>] \<and>
         r_model (fst (convertGoogleToOpenAI e (accumulateSSEResponse e body)
                         originalModel sessionId cs)) = originalModel"
proof -
  from openai_thinking_response [OF ps p1 p2 fr, of originalModel sessionId cs]
  obtain u where
    "fst (convertGoogleToOpenAI e (accumulateSSEResponse e body) originalModel sessionId cs) =
     \<lparr>r_id = ''chatcmpl-'' @ randomHex e, r_object = ''chat.completion'',
      r_created = now e div 1000, r_model = originalModel,
      choices = [\<lparr>c_index = 0,
                  c_message = \<lparr>m_role = ''assistant'', m_content = Some ''hello'',
                               reasoning_content = Some ''ok '', tool_calls = None\<rparr>,
                  finish_reason = ''stop''\<rparr>],
      usage = u\<rparr>" ..
  then show ?thesis by simp
qed

theorem openai_thinking_nonstreaming_witness:
  "choices (fst (convertGoogleToOpenAI sampleEnv (accumulateSSEResponse sampleEnv sampleBody)
                   ''gemini-2.5-pro-thinking'' ''sid'' noCaches)) =
     [\<lparr>c_index = 0,
       c_message = \<lparr>m_role = ''assistant'', m_content = Some ''hello'',
                    reasoning_content = Some ''ok '', tool_calls = None\<rparr>,
       finish_reason = ''stop''\<rparr>] \<and>
   r_model (fst (convertGoogleToOpenAI sampleEnv (accumulateSSEResponse sampleEnv sampleBody)
                   ''gemini-2.5-pro-thinking'' ''sid'' noCaches)) = ''gemini-2.5-pro-thinking''"
proof -
  have ps: "bodyParts sampleEnv sampleBody = [sampleThought, sampleText]" by code_simp
  have p1: "thought sampleThought" "partText sampleThought = Some ''ok ''"
    by (simp_all add: sampleThought_def)
  have p2: "\<not> thought sampleText" "functionCall sampleText = None"
      "partText sampleText = Some ''hello''"
    by (simp_all add: sampleText_def)
  have fr: "bodyFinishReasons sampleEnv sampleBody = [] \<or>
      last (bodyFinishReasons sampleEnv sampleBody) = ''STOP''"
    by code_simp
  show ?thesis by (rule openai_thinking_nonstreaming [OF ps p1 p2 fr])
qed

text \<open>
  The claim as stated fails for a body whose last \<open>data:\<close> line is not terminated: its
  lines carry the thought part, the text part and the finish reason STOP, but the text
  part is never read and the answer has no content.
\<close>

theorem openai_thinking_unterminated_line:
  "concat (map payloadParts
      (List.map_filter (linePayload sampleEnv) (splitNewline (concat sampleUnterminatedBody))))
     = [sampleThought, sampleText] \<and>
   statedFinish
      (List.map_filter (linePayload sampleEnv) (splitNewline (concat sampleUnterminatedBody)))
     = [''STOP''] \<and>
   choices (fst (convertGoogleToOpenAI sampleEnv
                   (accumulateSSEResponse sampleEnv sampleUnterminatedBody)
                   ''gemini-2.5-pro-thinking'' ''sid'' noCaches)) =
     [\<lparr>c_index = 0,
       c_message = \<lparr>m_role = ''assistant'', m_content = None,
                    reasoning_content = Some ''ok '', tool_calls = None\<rparr>,
       finish_reason = ''stop''\<rparr>]"
  by code_simp

theorem stream_final_chunk_witness:
  "chunkFinishReason (hd (fst (streamGoogleToOpenAI sampleEnv sampleBody ''m'' ''s'' noCaches)))
     = None \<and>
   chunkFinishReason (last (fst (streamGoogleToOpenAI sampleEnv sampleBody ''m'' ''s'' noCaches)))
     \<noteq> None"
proof -
  let ?out = "fst (streamGoogleToOpenAI sampleEnv sampleBody ''m'' ''s'' noCaches)"
  have mem: "hd ?out \<in> set (butlast ?out)" by code_simp
  note w = stream_final_chunk [of sampleEnv sampleBody "''m''" "''s''" noCaches]
  from w have "\<forall>c \<in> set (butlast ?out). chunkFinishReason c = None" by (elim conjE)
  then have a: "chunkFinishReason (hd ?out) = None" using mem by (rule bspec)
  from w have b: "chunkFinishReason (last ?out) \<noteq> None" by (elim conjE)
  from a b show ?thesis ..
qed

section \<open>Thought signatures\<close>

lemma toolIdOf_nonempty: "toolIdOf e fc \<noteq> []"
  by (simp add: toolIdOf_def Let_def truthyStr_def orEmpty_def split: option.split)

lemma cacheIfLong_eq:
  "cacheIfLong t (toolIdOf e fc) (Some sig) c =
     (if length sig \<ge> MIN_SIGNATURE_LENGTH
        then c(toolIdOf e fc \<mapsto> \<lparr>signature = sig, timestamp = t\<rparr>)
      else c)"
  using toolIdOf_nonempty [of e fc]
  by (auto simp: cacheIfLong_def cacheSignature_def truthyStr_def orEmpty_def MIN_SIGNATURE_LENGTH_def)

lemma convertPart_signature:
  assumes fc: "functionCall p = Some fc" and sig: "thoughtSignature p = Some sig"
    and nt: "\<not> thought p"
  shows "signatureCache (cv_caches (convertPart e m s st p)) =
           (if length sig \<ge> MIN_SIGNATURE_LENGTH
              then (signatureCache (cv_caches st))
                     (toolIdOf e fc \<mapsto> \<lparr>signature = sig, timestamp = now e\<rparr>)
            else signatureCache (cv_caches st))"
  using fc sig nt
  by (simp add: convertPart_def Let_def case_prod_beta cacheIfLong_eq)

lemma streamPart_signature:
  assumes fc: "functionCall p = Some fc" and sig: "thoughtSignature p = Some sig"
    and nt: "\<not> thought p" and ntx: "\<not> truthyStr (partText p)"
  shows "signatureCache (st_caches (streamPart e i m s ss p)) =
              (if length sig \<ge> MIN_SIGNATURE_LENGTH
                 then (signatureCache (st_caches ss))
                        (toolIdOf e fc \<mapsto> \<lparr>signature = sig, timestamp = now e\<rparr>)
               else signatureCache (st_caches ss))"
  using fc sig nt ntx
  by (simp add: streamPart_def Let_def case_prod_beta cacheIfLong_eq)

lemma processPart_signature:
  assumes fc: "functionCall p = Some fc" and sig: "thoughtSignature p = Some sig"
  shows "signatureCache (snd (processPart e s m cs p)) =
           (if length sig \<ge> MIN_SIGNATURE_LENGTH \<and> truthyStr (callId fc)
              then (signatureCache cs)
                     (orEmpty (callId fc) \<mapsto> \<lparr>signature = sig, timestamp = now e\<rparr>)
            else signatureCache cs)"
proof -
  have id: "callId (case x of Some n \<Rightarrow> fc\<lparr>callName := n\<rparr> | None \<Rightarrow> fc) = callId fc"
    for x :: "string option"
    by (simp split: option.split)
  have ne: "truthyStr (callId fc) \<Longrightarrow> orEmpty (callId fc) \<noteq> []"
    by (simp add: truthyStr_def orEmpty_def split: option.splits)
  show ?thesis
    using fc sig ne
    by (auto simp: processPart_def Let_def case_prod_beta id cacheSignature_def truthyStr_def
        orEmpty_def MIN_SIGNATURE_LENGTH_def)
qed

text \<open>
  Claim C6, as the code has it. For every function-call part (not flagged as a thought)
  that carries a thought signature: the OpenAI converters, non-streaming and streaming
  (there for a part without text), store the signature under the tool-call id, which
  they derive when the call has none, if and only if it is at least 50 characters long;
  the Gemini converter stores it under the call's id if and only if it is at least 50
  characters long and the call has an id. In every other case the cache is unchanged.
\<close>

theorem signature_cached_when_long:
  assumes fc: "functionCall p = Some fc" and sig: "thoughtSignature p = Some sig"
    and nt: "\<not> thought p"
  shows "signatureCache (cv_caches (convertPart e m s st p)) =
           (if length sig \<ge> MIN_SIGNATURE_LENGTH
              then (signatureCache (cv_caches st))
                     (toolIdOf e fc \<mapsto> \<lparr>signature = sig, timestamp = now e\<rparr>)
            else signatureCache (cv_caches st)) \<and>
         (\<not> truthyStr (partText p) \<longrightarrow>
            signatureCache (st_caches (streamPart e i m s ss p)) =
              (if length sig \<ge> MIN_SIGNATURE_LENGTH
                 then (signatureCache (st_caches ss))
                        (toolIdOf e fc \<mapsto> \<lparr>signature = sig, timestamp = now e\<rparr>)
               else signatureCache (st_caches ss))) \<and>
         signatureCache (snd (processPart e s m cs p)) =
           (if length sig \<ge> MIN_SIGNATURE_LENGTH \<and> truthyStr (callId fc)
              then (signatureCache cs)
                     (orEmpty (callId fc) \<mapsto> \<lparr>signature = sig, timestamp = now e\<rparr>)
            else signatureCache cs)"
  using convertPart_signature [OF fc sig nt] streamPart_signature [OF fc sig nt]
    processPart_signature [OF fc sig]
  by blast

text \<open>
  The claim as stated fails on the Gemini path: a function call without id has no
  tool-call id to store under, and its 50-character signature is not cached.
\<close>

theorem signature_not_cached_without_id:
  "length sampleSignature \<ge> 50 \<and>
   thoughtSignature sampleCallNoId = Some sampleSignature \<and>
   functionCall sampleCallNoId \<noteq> None \<and>
   signatureCache (snd (processParts sampleEnv (Some [sampleCallNoId]) ''sid'' ''gemini-3-pro''
                          noCaches)) = signatureCache noCaches"
proof -
  let ?fc = "\<lparr>callId = None, callName = ''lookup'', callArgs = None\<rparr>"
  have fc: "functionCall sampleCallNoId = Some ?fc" by (simp add: sampleCallNoId_def)
  have sig: "thoughtSignature sampleCallNoId = Some sampleSignature"
    by (simp add: sampleCallNoId_def)
  have "signatureCache (snd (processPart sampleEnv ''sid'' ''gemini-3-pro'' noCaches sampleCallNoId))
      = signatureCache noCaches"
    unfolding processPart_signature [OF fc sig] by (simp add: truthyStr_def)
  then have "signatureCache (snd (processParts sampleEnv (Some [sampleCallNoId]) ''sid''
      ''gemini-3-pro'' noCaches)) = signatureCache noCaches"
    by (simp add: processParts_def case_prod_beta)
  moreover have "length sampleSignature \<ge> 50" by (simp add: sampleSignature_def)
  ultimately show ?thesis using fc sig by simp
qed

theorem signature_cached_when_long_witness:
  "signatureCache (snd (processPart sampleEnv ''sid'' ''gemini-3-pro'' noCaches sampleCall)) ''call_1''
     = Some \<lparr>signature = sampleSignature, timestamp = 5000\<rparr> \<and>
   signatureCache (cv_caches (convertPart sampleEnv ''gemini-3-pro'' ''sid''
       \<lparr>messageContent = [], reasoningContent = [], toolCalls = [], toolCallIndex = 0,
        cv_caches = noCaches\<rparr> sampleCall)) ''call_1''
     = Some \<lparr>signature = sampleSignature, timestamp = 5000\<rparr> \<and>
   signatureCache (st_caches (streamPart sampleEnv ''chatcmpl-00'' ''gemini-3-pro'' ''sid''
       (streamInit noCaches) sampleCall)) ''call_1''
     = Some \<lparr>signature = sampleSignature, timestamp = 5000\<rparr>"
proof -
  let ?fc = "\<lparr>callId = Some ''call_1'', callName = ''lookup'', callArgs = None\<rparr>"
  have fc: "functionCall sampleCall = Some ?fc" by (simp add: sampleCall_def)
  have sig: "thoughtSignature sampleCall = Some sampleSignature" by (simp add: sampleCall_def)
  have nt: "\<not> thought sampleCall" by (simp add: sampleCall_def)
  have ntx: "\<not> truthyStr (partText sampleCall)" by (simp add: sampleCall_def truthyStr_def)
  have len: "length sampleSignature \<ge> MIN_SIGNATURE_LENGTH"
    by (simp add: sampleSignature_def MIN_SIGNATURE_LENGTH_def)
  have idt: "truthyStr (callId ?fc)" "orEmpty (callId ?fc) = ''call_1''"
    "toolIdOf sampleEnv ?fc = ''call_1''"
    by (simp_all add: truthyStr_def orEmpty_def toolIdOf_def)
  have t: "now sampleEnv = 5000" by (simp add: sampleEnv_def)
  note w = signature_cached_when_long [OF fc sig nt, of sampleEnv "''gemini-3-pro''" "''sid''"
      "\<lparr>messageContent = [], reasoningContent = [], toolCalls = [], toolCallIndex = 0,
        cv_caches = noCaches\<rparr>" "''chatcmpl-00''" "streamInit noCaches" noCaches]
  from w have a: "signatureCache (snd (processPart sampleEnv ''sid'' ''gemini-3-pro'' noCaches sampleCall))
      ''call_1'' = Some \<lparr>signature = sampleSignature, timestamp = 5000\<rparr>"
    using len idt t by simp
  from w have b: "signatureCache (cv_caches (convertPart sampleEnv ''gemini-3-pro'' ''sid''
       \<lparr>messageContent = [], reasoningContent = [], toolCalls = [], toolCallIndex = 0,
        cv_caches = noCaches\<rparr> sampleCall)) ''call_1''
     = Some \<lparr>signature = sampleSignature, timestamp = 5000\<rparr>"
    using len idt t by simp
  from w ntx have c: "signatureCache (st_caches (streamPart sampleEnv ''chatcmpl-00'' ''gemini-3-pro'' ''sid''
       (streamInit noCaches) sampleCall)) ''call_1''
     = Some \<lparr>signature = sampleSignature, timestamp = 5000\<rparr>"
    using len idt t by simp
  from a b c show ?thesis by blast
qed

section \<open>Tool config of a Gemini request\<close>

lemma convertGemini_toolConfig:
  "n_toolConfig (request (fst (convertGeminiToGoogle e h r mn pid cs))) =
     (if (case n_tools (request (fst (convertGeminiToGoogle e h r mn pid cs))) of
            Some l \<Rightarrow> length l > 0 | None \<Rightarrow> False) \<and> toolConfig r = None
        then Some validatedToolConfig
      else toolConfig r)"
  by (simp add: convertGeminiToGoogle_def Let_def case_prod_beta)

lemma mapAccum_length: "length (fst (mapAccum f s xs)) = length xs"
  by (induction xs arbitrary: s) (simp_all add: case_prod_beta Let_def)

lemma convertGemini_tools:
  "n_tools (request (fst (convertGeminiToGoogle e h r mn pid cs))) =
     (case tools r of
        None \<Rightarrow> None
      | Some l \<Rightarrow> Some (fst (convertGeminiToolsToAntigravity e h (Some l)
                 (n_sessionId (request (fst (convertGeminiToGoogle e h r mn pid cs))))
                 (mapModelName mn) (toolNameMap cs))))"
  by (simp add: convertGeminiToGoogle_def Let_def case_prod_beta split: option.split)

lemma convertTools_length:
  "length (fst (convertGeminiToolsToAntigravity e h (Some l) s m names)) = length l"
  by (simp add: convertGeminiToolsToAntigravity_def mapAccum_length)

text \<open>
  Claim C7, as the code has it. For every inbound Gemini request: the translated request
  has a non-empty tools array exactly when the inbound one has; if it has and the inbound
  request has no tool config of its own, the mode of the native request is "VALIDATED";
  a tool config that the inbound request brings is passed on unchanged.
\<close>

theorem gemini_tool_config:
  "((case n_tools (request (fst (convertGeminiToGoogle e h r mn pid cs))) of
       Some l \<Rightarrow> l \<noteq> [] | None \<Rightarrow> False) \<and> toolConfig r = None \<longrightarrow>
      toolConfigMode (request (fst (convertGeminiToGoogle e h r mn pid cs))) = Some ''VALIDATED'') \<and>
   (toolConfig r \<noteq> None \<longrightarrow>
      n_toolConfig (request (fst (convertGeminiToGoogle e h r mn pid cs))) = toolConfig r) \<and>
   ((case n_tools (request (fst (convertGeminiToGoogle e h r mn pid cs))) of
       Some l \<Rightarrow> l \<noteq> [] | None \<Rightarrow> False) \<longleftrightarrow>
    (case tools r of Some l \<Rightarrow> l \<noteq> [] | None \<Rightarrow> False))"
proof (intro conjI impI)
  assume "(case n_tools (request (fst (convertGeminiToGoogle e h r mn pid cs))) of
       Some l \<Rightarrow> l \<noteq> [] | None \<Rightarrow> False) \<and> toolConfig r = None"
  then have "n_toolConfig (request (fst (convertGeminiToGoogle e h r mn pid cs)))
      = Some validatedToolConfig"
    unfolding convertGemini_toolConfig by (simp split: option.splits)
  then show "toolConfigMode (request (fst (convertGeminiToGoogle e h r mn pid cs))) = Some ''VALIDATED''"
    by (simp add: toolConfigMode_def validatedToolConfig_def)
next
  assume "toolConfig r \<noteq> None"
  then show "n_toolConfig (request (fst (convertGeminiToGoogle e h r mn pid cs))) = toolConfig r"
    unfolding convertGemini_toolConfig by simp
next
  show "(case n_tools (request (fst (convertGeminiToGoogle e h r mn pid cs))) of
       Some l \<Rightarrow> l \<noteq> [] | None \<Rightarrow> False) \<longleftrightarrow>
    (case tools r of Some l \<Rightarrow> l \<noteq> [] | None \<Rightarrow> False)"
  proof (cases "tools r")
    case None
    then show ?thesis unfolding convertGemini_tools by simp
  next
    case (Some l)
    let ?x = "fst (convertGeminiToolsToAntigravity e h (Some l)
                 (n_sessionId (request (fst (convertGeminiToGoogle e h r mn pid cs))))
                 (mapModelName mn) (toolNameMap cs))"
    have "length ?x = length l" by (rule convertTools_length)
    then have "?x \<noteq> [] \<longleftrightarrow> l \<noteq> []" by (cases l) auto
    with Some show ?thesis unfolding convertGemini_tools by simp
  qed
qed

text \<open>
  The claim as stated fails for a request that brings its own tool config: the guard
  \<open>!request.toolConfig\<close> keeps it, here with mode "AUTO".
\<close>

theorem gemini_tool_config_kept:
  "(case n_tools (request (fst (convertGeminiToGoogle sampleEnv sampleHelpers
        (sampleGeminiRequest (Some autoToolConfig)) ''gemini-2.5-pro'' ''project'' noCaches))) of
      Some l \<Rightarrow> l \<noteq> [] | None \<Rightarrow> False) \<and>
   toolConfigMode (request (fst (convertGeminiToGoogle sampleEnv sampleHelpers
        (sampleGeminiRequest (Some autoToolConfig)) ''gemini-2.5-pro'' ''project'' noCaches)))
     = Some ''AUTO''"
  by code_simp

theorem gemini_tool_config_witness:
  "toolConfigMode (request (fst (convertGeminiToGoogle sampleEnv sampleHelpers
        (sampleGeminiRequest None) ''gemini-2.5-pro'' ''project'' noCaches))) = Some ''VALIDATED'' \<and>
   n_toolConfig (request (fst (convertGeminiToGoogle sampleEnv sampleHelpers
        (sampleGeminiRequest (Some autoToolConfig)) ''gemini-2.5-pro'' ''project'' noCaches)))
     = Some autoToolConfig"
proof -
  have t: "(case tools (sampleGeminiRequest None) of Some l \<Rightarrow> l \<noteq> [] | None \<Rightarrow> False)"
    by (simp add: sampleGeminiRequest_def)
  have n: "toolConfig (sampleGeminiRequest None) = None" by (simp add: sampleGeminiRequest_def)
  have s: "toolConfig (sampleGeminiRequest (Some autoToolConfig)) = Some autoToolConfig"
    by (simp add: sampleGeminiRequest_def)
  note w1 = gemini_tool_config [of sampleEnv sampleHelpers "sampleGeminiRequest None" "''gemini-2.5-pro''"
      "''project''" noCaches]
  note w2 = gemini_tool_config [of sampleEnv sampleHelpers "sampleGeminiRequest (Some autoToolConfig)"
      "''gemini-2.5-pro''" "''project''" noCaches]
  from w1 t n have a: "toolConfigMode (request (fst (convertGeminiToGoogle sampleEnv sampleHelpers
        (sampleGeminiRequest None) ''gemini-2.5-pro'' ''project'' noCaches))) = Some ''VALIDATED''"
    by blast
  from w2 s have b: "n_toolConfig (request (fst (convertGeminiToGoogle sampleEnv sampleHelpers
        (sampleGeminiRequest (Some autoToolConfig)) ''gemini-2.5-pro'' ''project'' noCaches)))
     = Some autoToolConfig"
    by simp
  from a b show ?thesis ..
qed

section \<open>Session ids\<close>

lemma deriveSessionId_openai_step:
  "deriveSessionId_openai e (msg # rest) =
     (if msgRole msg = Some ''user'' \<and> messageText msg \<noteq> []
        then take 32 (sha256Hex e (messageText msg))
      else deriveSessionId_openai e rest)"
  by (simp add: messageText_def Let_def)

lemma firstUserText_openai_step:
  "firstUserText_openai (msg # rest) =
     (if msgRole msg = Some ''user'' \<and> messageText msg \<noteq> [] then Some (messageText msg)
      else firstUserText_openai rest)"
  by (simp add: firstUserText_openai_def)

lemma deriveSessionId_openai_spec:
  "deriveSessionId_openai e msgs = session_id_spec e (firstUserText_openai msgs)"
proof (induction msgs)
  case Nil
  show ?case by (simp add: session_id_spec_def firstUserText_openai_def)
next
  case (Cons msg rest)
  then show ?case
    unfolding deriveSessionId_openai_step firstUserText_openai_step
    by (simp add: session_id_spec_def)
qed

lemma firstTextOf_filter:
  "firstTextOf ps =
     (case filter (\<lambda>t. t \<noteq> []) (map (\<lambda>p. orEmpty (partText p)) ps) of
        [] \<Rightarrow> None
      | t # rest \<Rightarrow> Some t)"
  by (induction ps) (auto simp: truthyStr_def orEmpty_def split: option.splits)

lemma firstUserText_gemini_step:
  "firstUserText_gemini (c # rest) =
     (if role c = Some ''user'' \<and> parts c \<noteq> None
        then (case firstTextOf (case parts c of Some ps \<Rightarrow> ps | None \<Rightarrow> []) of
                Some t \<Rightarrow> Some t
              | None \<Rightarrow> firstUserText_gemini rest)
      else firstUserText_gemini rest)"
  by (auto simp: firstUserText_gemini_def firstTextOf_filter split: list.splits option.splits)

lemma deriveSessionId_gemini_spec:
  "deriveSessionId_gemini e cs = session_id_spec e (firstUserText_gemini cs)"
proof (induction cs)
  case Nil
  show ?case by (simp add: session_id_spec_def firstUserText_gemini_def)
next
  case (Cons c rest)
  then show ?case
    unfolding firstUserText_gemini_step
    by (simp add: session_id_spec_def split: option.split)
qed

text \<open>
  Claim C3, as the code has it. The derived session id is the SHA-256 hex digest of the
  first user text cut to 32 characters, and the random UUID when the request has no user
  text. Hence two requests with the same first user text derive the same id under every
  draw of the random values. (Different texts derive different ids exactly when their
  truncated digests differ.)
\<close>

theorem session_id_derivation:
  "deriveSessionId_openai e msgs = session_id_spec e (firstUserText_openai msgs) \<and>
   deriveSessionId_gemini e cs = session_id_spec e (firstUserText_gemini cs) \<and>
   (sha256Hex e' = sha256Hex e \<and> firstUserText_openai msgs' = firstUserText_openai msgs \<and>
      firstUserText_openai msgs \<noteq> None \<longrightarrow>
      deriveSessionId_openai e' msgs' = deriveSessionId_openai e msgs) \<and>
   (sha256Hex e' = sha256Hex e \<and> firstUserText_gemini cs' = firstUserText_gemini cs \<and>
      firstUserText_gemini cs \<noteq> None \<longrightarrow>
      deriveSessionId_gemini e' cs' = deriveSessionId_gemini e cs)"
  by (auto simp: deriveSessionId_openai_spec deriveSessionId_gemini_spec session_id_spec_def)

text \<open>The id has at most 32 characters, texts are unboundedly many: some two texts share it.\<close>

lemma truncated_not_injective:
  fixes f :: "string \<Rightarrow> string"
  shows "\<exists>t t'. t \<noteq> [] \<and> t' \<noteq> [] \<and> t \<noteq> t' \<and> take 32 (f t) = take 32 (f t')"
proof (rule ccontr)
  assume no: "\<not> ?thesis"
  let ?A = "{t :: string. t \<noteq> []}"
  let ?g = "\<lambda>t. take 32 (f t)"
  from no have inj: "inj_on ?g ?A" by (auto simp: inj_on_def)
  have "?g ` ?A \<subseteq> {xs. set xs \<subseteq> UNIV \<and> length xs \<le> 32}" by auto
  moreover have "finite {xs :: string. set xs \<subseteq> UNIV \<and> length xs \<le> 32}"
    by (rule finite_lists_length_le) simp
  ultimately have "finite (?g ` ?A)" by (rule finite_subset)
  then have "finite ?A" using inj by (rule finite_imageD)
  moreover have "?A = UNIV - {[]}" by auto
  ultimately have "finite (UNIV :: string set)" by simp
  then show False using infinite_UNIV_listI by blast
qed

text \<open>
  The claim that any change of the text changes the id fails for every digest function:
  two different non-empty user texts derive the same session id.
\<close>

theorem session_id_collision:
  "\<forall>e. \<exists>t t'. t \<noteq> [] \<and> t' \<noteq> [] \<and> t \<noteq> t' \<and>
     deriveSessionId_openai e [userMessage t] = deriveSessionId_openai e [userMessage t']"
proof
  fix e :: env
  from truncated_not_injective [of "sha256Hex e"] obtain t t' where
    "t \<noteq> []" "t' \<noteq> []" "t \<noteq> t'" "take 32 (sha256Hex e t) = take 32 (sha256Hex e t')"
    by blast
  then have "t \<noteq> [] \<and> t' \<noteq> [] \<and> t \<noteq> t' \<and>
     deriveSessionId_openai e [userMessage t] = deriveSessionId_openai e [userMessage t']"
    by (simp add: userMessage_def)
  then show "\<exists>t t'. t \<noteq> [] \<and> t' \<noteq> [] \<and> t \<noteq> t' \<and>
     deriveSessionId_openai e [userMessage t] = deriveSessionId_openai e [userMessage t']"
    by blast
qed

theorem session_id_derivation_witness:
  "deriveSessionId_openai sampleEnv [userMessage ''hi''] = replicate 32 (CHR ''0'') \<and>
   deriveSessionId_gemini sampleEnv [\<lparr>role = Some ''model'', parts = Some [sampleText]\<rparr>]
     = ''00000000-0000-4000-8000-000000000000'' \<and>
   deriveSessionId_openai (sampleEnv\<lparr>randomUUID := ''other''\<rparr>)
       [\<lparr>msgRole = Some ''system'', msgContent = ContentString ''be brief''\<rparr>, userMessage ''hi'']
     = deriveSessionId_openai sampleEnv [userMessage ''hi'']"
proof -
  note w = session_id_derivation [of sampleEnv "[userMessage ''hi'']"
      "[\<lparr>role = Some ''model'', parts = Some [sampleText]\<rparr>]"
      "sampleEnv\<lparr>randomUUID := ''other''\<rparr>"
      "[\<lparr>msgRole = Some ''system'', msgContent = ContentString ''be brief''\<rparr>, userMessage ''hi'']"
      "[\<lparr>role = Some ''model'', parts = Some [sampleText]\<rparr>]"]
  have f1: "firstUserText_openai [userMessage ''hi''] = Some ''hi''" by code_simp
  have f2: "firstUserText_gemini [\<lparr>role = Some ''model'', parts = Some [sampleText]\<rparr>] = None"
    by code_simp
  have f3: "firstUserText_openai
      [\<lparr>msgRole = Some ''system'', msgContent = ContentString ''be brief''\<rparr>, userMessage ''hi'']
      = Some ''hi''" by code_simp
  have h: "sha256Hex (sampleEnv\<lparr>randomUUID := ''other''\<rparr>) = sha256Hex sampleEnv" by simp
  from w have "deriveSessionId_openai sampleEnv [userMessage ''hi'']
      = session_id_spec sampleEnv (firstUserText_openai [userMessage ''hi''])" by (elim conjE)
  then have a: "deriveSessionId_openai sampleEnv [userMessage ''hi''] = replicate 32 (CHR ''0'')"
    unfolding f1 by (simp add: session_id_spec_def sampleEnv_def)
  from w have "deriveSessionId_gemini sampleEnv [\<lparr>role = Some ''model'', parts = Some [sampleText]\<rparr>]
      = session_id_spec sampleEnv
          (firstUserText_gemini [\<lparr>role = Some ''model'', parts = Some [sampleText]\<rparr>])"
    by (elim conjE)
  then have b: "deriveSessionId_gemini sampleEnv [\<lparr>role = Some ''model'', parts = Some [sampleText]\<rparr>]
     = ''00000000-0000-4000-8000-000000000000''"
    unfolding f2 by (simp add: session_id_spec_def sampleEnv_def)
  from w h f1 f3 have c: "deriveSessionId_openai (sampleEnv\<lparr>randomUUID := ''other''\<rparr>)
       [\<lparr>msgRole = Some ''system'', msgContent = ContentString ''be brief''\<rparr>, userMessage ''hi'']
     = deriveSessionId_openai sampleEnv [userMessage ''hi'']"
    by simp
  from a b c show ?thesis by blast
qed

end
